theory Spec2Isabelle
  imports Complex_Main
begin

section \<open>Subtitle splitter of \<^verbatim>\<open>src/lib/videoRenderer.ts\<close> (the subtitleSplitter part)\<close>

text \<open>
  Conventions of the embedding.
  \<^item> A JavaScript string is the list of its UTF-16 code units (\<open>nat list\<close>): \<^verbatim>\<open>.length\<close>
    is \<open>length\<close>, and every Korean syllable of the regular expressions is one code unit.
  \<^item> A JavaScript number is a \<open>real\<close>, and the result of every addition, subtraction,
    multiplication and division is rounded by \<open>fl\<close>: to the nearest number with 53
    significant bits, a tie to the even one, as binary64 rounds it. The exponent has no
    bounds in \<open>fl\<close>: this is the arithmetic of binary64 for a run in which no operation
    overflows or underflows. The times \<^verbatim>\<open>recalculateTimings\<close> computes are of the
    type \<open>jsnum\<close>, which adds \<open>NaN\<close> and the two infinities.
  \<^item> \<^verbatim>\<open>generateId()\<close> reads the clock and a random number. The outcomes of its successive
    calls are a parameter \<open>g\<close> (the k-th call returns \<open>g k\<close>), and every function that calls
    it takes the number of calls made so far and returns the new count.
  \<^item> A \<^verbatim>\<open>RegExp\<close> is what the code asks of it: \<^verbatim>\<open>re.test(s)\<close> and \<^verbatim>\<open>s.split(re)\<close>
    (for a regular expression without the \<^verbatim>\<open>g\<close> and \<^verbatim>\<open>y\<close> flags, whose \<^verbatim>\<open>test\<close> has no state).
  \<^item> A \<^verbatim>\<open>TypeError\<close> thrown by the source is the value \<open>Inl TypeError\<close>.
\<close>

subsection \<open>Numbers\<close>

text \<open>\<open>pow2 k\<close> is \<open>2\<close> to the power \<open>k\<close>, for an integer \<open>k\<close>.\<close>

definition pow2 :: "int \<Rightarrow> real" where
  "pow2 k = (if 0 \<le> k then 2 ^ nat k else 1 / 2 ^ nat (- k))"

text \<open>Rounding to the nearest integer, a tie to the even one.\<close>

definition rhe :: "real \<Rightarrow> int" where
  "rhe y =
     (let f = \<lfloor>y\<rfloor>; d = y - of_int f
      in if d < 1 / 2 then f else if 1 / 2 < d then f + 1 else if even f then f else f + 1)"

text \<open>
  The rounding of binary64: with \<open>2 ^ e \<le> \<bar>x\<bar> < 2 ^ (e + 1)\<close>, the nearest multiple of
  \<open>2 ^ (e - 52)\<close>.
\<close>

definition fl :: "real \<Rightarrow> real" where
  "fl x =
     (if x = 0 then 0
      else (let e = \<lfloor>log 2 \<bar>x\<bar>\<rfloor>
            in of_int (rhe (x * pow2 (52 - e))) * pow2 (e - 52)))"

text \<open>The unit roundoff of binary64, \<open>2 ^ -53\<close>: the relative error of one rounding.\<close>

definition unit_roundoff :: real where
  "unit_roundoff = 1 / 2 ^ 53"

subsection \<open>Strings\<close>

type_synonym jsstring = "nat list"

text \<open>The class \<^verbatim>\<open>\s\<close> of a regular expression, which is also what \<^verbatim>\<open>trim()\<close> removes.\<close>

definition is_ws :: "nat \<Rightarrow> bool" where
  "is_ws c = (c = 9 \<or> c = 10 \<or> c = 11 \<or> c = 12 \<or> c = 13 \<or> c = 32 \<or> c = 160 \<or> c = 5760
      \<or> (8192 \<le> c \<and> c \<le> 8202) \<or> c = 8232 \<or> c = 8233 \<or> c = 8239 \<or> c = 8287
      \<or> c = 12288 \<or> c = 65279)"

text \<open>\<^verbatim>\<open>s.replace(/\s/g, '')\<close>\<close>

definition strip_ws :: "jsstring \<Rightarrow> jsstring" where
  "strip_ws s = filter (\<lambda>c. \<not> is_ws c) s"

text \<open>\<^verbatim>\<open>s.trim()\<close>\<close>

definition trim :: "jsstring \<Rightarrow> jsstring" where
  "trim s = rev (dropWhile is_ws (rev (dropWhile is_ws s)))"

text \<open>\<^verbatim>\<open>xs.join(sep)\<close>\<close>

fun join :: "jsstring \<Rightarrow> jsstring list \<Rightarrow> jsstring" where
  "join sep [] = []"
| "join sep [x] = x"
| "join sep (x # y # ys) = x @ sep @ join sep (y # ys)"

text \<open>\<open>starts_with p s\<close>: \<open>p\<close> is a prefix of \<open>s\<close>.\<close>

fun starts_with :: "jsstring \<Rightarrow> jsstring \<Rightarrow> bool" where
  "starts_with [] s = True"
| "starts_with (p # ps) [] = False"
| "starts_with (p # ps) (c # cs) = (p = c \<and> starts_with ps cs)"

subsection \<open>Regular expressions\<close>

record RegExp =
  re_test :: "jsstring \<Rightarrow> bool"
  re_split :: "jsstring \<Rightarrow> jsstring option list"

text \<open>
  A pattern is given by its matcher: \<open>m pre s\<close> tries the pattern at the position between
  \<open>pre\<close> (the string before it, which a look-behind reads) and \<open>s\<close> (the rest), and
  returns the length of the match and the values of its capture groups (\<open>None\<close> for a
  group that took no part: \<^verbatim>\<open>undefined\<close>).
\<close>

type_synonym matcher = "jsstring \<Rightarrow> jsstring \<Rightarrow> (nat \<times> jsstring option list) option"

text \<open>\<^verbatim>\<open>re.test(s)\<close>: the pattern matches at some position, the end of the string included.\<close>

fun js_test_from :: "matcher \<Rightarrow> jsstring \<Rightarrow> jsstring \<Rightarrow> bool" where
  "js_test_from m pre [] = (m pre [] \<noteq> None)"
| "js_test_from m pre (c # cs) = (m pre (c # cs) \<noteq> None \<or> js_test_from m (pre @ [c]) cs)"

definition js_test :: "matcher \<Rightarrow> jsstring \<Rightarrow> bool" where
  "js_test m s = js_test_from m [] s"

text \<open>
  \<^verbatim>\<open>s.split(re)\<close>, the loop of \<^verbatim>\<open>RegExp.prototype[Symbol.split]\<close>: \<open>pre\<close> is the string
  before the position \<open>q\<close> tried, \<open>cur\<close> the piece since the end \<open>p\<close> of the last separator.
  A match that ends at \<open>p\<close> is skipped; otherwise the piece is pushed, then the capture
  groups, \<^verbatim>\<open>undefined\<close> ones included.
\<close>

function js_split_loop :: "matcher \<Rightarrow> jsstring \<Rightarrow> jsstring \<Rightarrow> jsstring \<Rightarrow> jsstring option list" where
  "js_split_loop m pre cur [] = [Some cur]"
| "js_split_loop m pre cur (c # cs) =
     (case m pre (c # cs) of
        None \<Rightarrow> js_split_loop m (pre @ [c]) (cur @ [c]) cs
      | Some (len, caps) \<Rightarrow>
          if min len (length (c # cs)) = 0 \<and> cur = [] then js_split_loop m (pre @ [c]) (cur @ [c]) cs
          else Some cur # caps @
               js_split_loop m (pre @ take len (c # cs)) [] (drop len (c # cs)))"
  by pat_completeness auto
termination
  by (relation "measure (\<lambda>(m, pre, cur, s). 2 * length s + (if cur = [] then 0 else 1))") auto

definition js_split :: "matcher \<Rightarrow> jsstring \<Rightarrow> jsstring option list" where
  "js_split m s =
     (if s = [] then (case m [] [] of None \<Rightarrow> [Some []] | Some z \<Rightarrow> [])
      else js_split_loop m [] [] s)"

definition regexp :: "matcher \<Rightarrow> RegExp" where
  "regexp m = \<lparr> re_test = js_test m, re_split = js_split m \<rparr>"

text \<open>\<^verbatim>\<open>/[.?!...]/\<close>, the default \<^verbatim>\<open>sentenceDelimiters\<close>: one of six code units.\<close>

definition sentence_delimiter_units :: "nat list" where
  "sentence_delimiter_units = [46, 63, 33, 12290, 65311, 65281]"

definition sentenceDelimiters_matcher :: matcher where
  "sentenceDelimiters_matcher pre s =
     (case s of [] \<Rightarrow> None
      | c # cs \<Rightarrow> if c \<in> set sentence_delimiter_units then Some (1, []) else None)"

text \<open>
  The default \<^verbatim>\<open>naturalBreakPattern\<close>, \<^verbatim>\<open>/[,...:;]|\s+(c1|c2|...)\s+/\<close>: one of five
  punctuation units (the capture group is then \<^verbatim>\<open>undefined\<close>), or white space, the first
  conjunction of the list that is followed by white space, and that white space. No
  conjunction starts with white space, so the leading \<^verbatim>\<open>\s+\<close> takes the whole run.
\<close>

definition natural_break_units :: "nat list" where
  "natural_break_units = [44, 65292, 12289, 58, 59]"

definition conjunctions :: "jsstring list" where
  "conjunctions =
     [[44536, 47532, 44256], [44536, 47000, 49436], [54616, 51648, 47564],
      [44536, 47084, 45208], [44536, 47088, 45936], [46608, 54620],
      [44536, 47532, 44256, 45716], [44536, 47000, 49436, 45716], [44540, 45936],
      [50500, 45768, 47732], [46608, 45716]]"

definition naturalBreak_matcher :: matcher where
  "naturalBreak_matcher pre s =
     (case s of [] \<Rightarrow> None
      | c # cs \<Rightarrow>
          if c \<in> set natural_break_units then Some (1, [None])
          else if is_ws c then
            (let lead = takeWhile is_ws s; r = dropWhile is_ws s
             in case find (\<lambda>w. starts_with w r \<and>
                               (case drop (length w) r of [] \<Rightarrow> False | d # ds \<Rightarrow> is_ws d))
                          conjunctions of
                  None \<Rightarrow> None
                | Some w \<Rightarrow>
                    Some (length lead + length w + length (takeWhile is_ws (drop (length w) r)),
                          [Some w]))
          else None)"

text \<open>
  \<^verbatim>\<open>KOREAN_SENTENCE_ENDINGS = /(?:...|...)[\s]*$/\<close>: one of the endings, then white space
  up to the end of the string. No ending holds a white-space unit, so the white space the
  pattern skips is the whole trailing run.
\<close>

definition korean_endings :: "jsstring list" where
  "korean_endings =
     [[45796], [50836], [51424], [45348], [45208], [44620], [51648], [44256], [47728],
      [47732, 49436], [45716, 45936], [45768, 44620], [44144, 46304], [51094, 50500],
      [47000], [49464, 50836], [49845, 45768, 45796], [54633, 45768, 45796],
      [51077, 45768, 45796], [46121, 45768, 45796], [45768, 45796]]"

definition KOREAN_SENTENCE_ENDINGS :: "jsstring \<Rightarrow> bool" where
  "KOREAN_SENTENCE_ENDINGS s =
     list_ex (\<lambda>e. starts_with (rev e) (dropWhile is_ws (rev s))) korean_endings"

text \<open>The pattern of rule 6 of \<^verbatim>\<open>checkShouldSplit\<close>: \<^verbatim>\<open>/^(...|...)/\<close>.\<close>

definition clause_starts :: "jsstring list" where
  "clause_starts =
     [[44536, 47532, 44256], [44536, 47000, 49436], [54616, 51648, 47564],
      [44536, 47084, 45208], [44536, 47088, 45936], [46608, 54620], [44540, 45936],
      [50500, 45768, 47732], [46608, 45716], [44536, 47100], [51088], [51060, 51228],
      [44536, 46412]]"

definition startsNewClause :: "jsstring \<Rightarrow> bool" where
  "startsNewClause s = list_ex (\<lambda>p. starts_with p s) clause_starts"

subsection \<open>Data model\<close>

record WordTimestamp =
  word :: jsstring
  w_startTime :: real
  w_endTime :: real
  confidence :: "real option"

record STTResult =
  stt_fullText :: jsstring
  stt_words :: "WordTimestamp list"
  stt_duration :: real
  stt_language :: "jsstring option"

record 'n SubtitleSegment =
  seg_id :: jsstring
  seg_text :: jsstring
  startTime :: 'n
  endTime :: 'n
  words :: "WordTimestamp list"
  duration :: 'n

text \<open>\<^verbatim>\<open>Required<SplitterOptions>\<close>\<close>

record SplitterOptions =
  minDuration :: real
  targetDuration :: real
  maxDuration :: real
  maxCharacters :: real
  sentenceDelimiters :: RegExp
  naturalBreakPattern :: RegExp

text \<open>\<^verbatim>\<open>SplitterOptions\<close> as the caller gives it: every field may be absent.\<close>

record PartialOptions =
  opt_minDuration :: "real option"
  opt_targetDuration :: "real option"
  opt_maxDuration :: "real option"
  opt_maxCharacters :: "real option"
  opt_sentenceDelimiters :: "RegExp option"
  opt_naturalBreakPattern :: "RegExp option"

datatype error = TypeError

type_synonym idgen = "nat \<Rightarrow> jsstring"

subsection \<open>Options\<close>

definition DEFAULT_OPTIONS :: SplitterOptions where
  "DEFAULT_OPTIONS =
     \<lparr> minDuration = 1.5, targetDuration = 2.5, maxDuration = 3.5, maxCharacters = 50,
       sentenceDelimiters = regexp sentenceDelimiters_matcher,
       naturalBreakPattern = regexp naturalBreak_matcher \<rparr>"

text \<open>\<^verbatim>\<open>{ ...DEFAULT_OPTIONS, ...options }\<close>\<close>

definition merge_options :: "PartialOptions \<Rightarrow> SplitterOptions" where
  "merge_options options =
     \<lparr> minDuration = (case opt_minDuration options of None \<Rightarrow> minDuration DEFAULT_OPTIONS | Some v \<Rightarrow> v),
       targetDuration = (case opt_targetDuration options of None \<Rightarrow> targetDuration DEFAULT_OPTIONS | Some v \<Rightarrow> v),
       maxDuration = (case opt_maxDuration options of None \<Rightarrow> maxDuration DEFAULT_OPTIONS | Some v \<Rightarrow> v),
       maxCharacters = (case opt_maxCharacters options of None \<Rightarrow> maxCharacters DEFAULT_OPTIONS | Some v \<Rightarrow> v),
       sentenceDelimiters = (case opt_sentenceDelimiters options of None \<Rightarrow> sentenceDelimiters DEFAULT_OPTIONS | Some v \<Rightarrow> v),
       naturalBreakPattern = (case opt_naturalBreakPattern options of None \<Rightarrow> naturalBreakPattern DEFAULT_OPTIONS | Some v \<Rightarrow> v) \<rparr>"

text \<open>The options argument left out: \<^verbatim>\<open>options = {}\<close>.\<close>

definition no_options :: PartialOptions where
  "no_options =
     \<lparr> opt_minDuration = None, opt_targetDuration = None, opt_maxDuration = None,
       opt_maxCharacters = None, opt_sentenceDelimiters = None,
       opt_naturalBreakPattern = None \<rparr>"

subsection \<open>The split decision\<close>

text \<open>
  \<^verbatim>\<open>checkShouldSplit\<close>. Its argument object is passed field by field, in the order of
  \<^verbatim>\<open>SplitCheckParams\<close>; \<open>nextWord\<close> is \<open>None\<close> where the source has \<^verbatim>\<open>undefined\<close>.
\<close>

definition checkShouldSplit ::
  "real \<Rightarrow> nat \<Rightarrow> jsstring \<Rightarrow> WordTimestamp \<Rightarrow> WordTimestamp option \<Rightarrow> SplitterOptions \<Rightarrow> bool" where
  "checkShouldSplit currentDuration currentCharCount currentText w nextWord opts =
     (case nextWord of
        None \<Rightarrow> True
      | Some nw \<Rightarrow>
          (let nextGap = fl (w_startTime nw - w_endTime w) in
           if currentDuration \<ge> maxDuration opts then True
           else if real currentCharCount \<ge> maxCharacters opts then True
           else
             (let isSentenceEnd =
                    (re_test (sentenceDelimiters opts) (word w) \<or> KOREAN_SENTENCE_ENDINGS (word w))
              in if isSentenceEnd \<and> currentDuration \<ge> minDuration opts then True
                 else
                   (let isNaturalBreak = re_test (naturalBreakPattern opts) currentText
                    in if isNaturalBreak \<and> currentDuration \<ge> targetDuration opts then True
                       else if nextGap \<ge> 0.5 \<and> currentDuration \<ge> minDuration opts then True
                       else if currentDuration \<ge> targetDuration opts
                               \<and> startsNewClause (word nw) then True
                       else False))))"

subsection \<open>Building a segment\<close>

text \<open>
  \<^verbatim>\<open>createSegment\<close>. On an empty array \<^verbatim>\<open>words[words.length - 1]\<close> is \<^verbatim>\<open>undefined\<close> and
  reading its \<^verbatim>\<open>endTime\<close> throws.
\<close>

definition createSegment ::
  "idgen \<Rightarrow> nat \<Rightarrow> WordTimestamp list \<Rightarrow> real \<Rightarrow> error + (real SubtitleSegment \<times> nat)" where
  "createSegment g n ws start =
     (let txt = trim (join [32] (map word ws)) in
      if ws = [] then Inl TypeError
      else
        (let endT = w_endTime (last ws) in
         Inr (\<lparr> seg_id = g n, seg_text = txt, startTime = start, endTime = endT,
                words = ws, duration = fl (endT - start) \<rparr>, Suc n)))"

subsection \<open>Merging short segments\<close>

text \<open>The object pushed by the merging branch of \<^verbatim>\<open>mergeShortSegments\<close>.\<close>

definition merged_segment ::
  "idgen \<Rightarrow> nat \<Rightarrow> real SubtitleSegment \<Rightarrow> real SubtitleSegment \<Rightarrow> real SubtitleSegment" where
  "merged_segment g n current nxt =
     \<lparr> seg_id = g n,
       seg_text = trim (seg_text current @ [32] @ seg_text nxt),
       startTime = startTime current,
       endTime = endTime nxt,
       words = words current @ words nxt,
       duration = fl (endTime nxt - startTime current) \<rparr>"

text \<open>
  The \<^verbatim>\<open>while (i < segments.length)\<close> loop. \<^verbatim>\<open>segments[i + 1]\<close> is \<^verbatim>\<open>undefined\<close>, hence
  falsy, exactly when \<open>i + 1\<close> is out of range.
\<close>

function mergeLoop ::
  "idgen \<Rightarrow> SplitterOptions \<Rightarrow> real SubtitleSegment list \<Rightarrow> nat \<Rightarrow> real SubtitleSegment list \<Rightarrow> nat
     \<Rightarrow> real SubtitleSegment list \<times> nat" where
  "mergeLoop g opts segments i result n =
     (if i < length segments then
        (let current = segments ! i in
         if duration current < minDuration opts \<and> i + 1 < length segments
            \<and> fl (duration current + duration (segments ! (i + 1))) \<le> maxDuration opts
         then mergeLoop g opts segments (i + 2)
                (result @ [merged_segment g n current (segments ! (i + 1))]) (Suc n)
         else mergeLoop g opts segments (i + 1) (result @ [current]) n)
      else (result, n))"
  by pat_completeness auto
termination
  by (relation "measure (\<lambda>(g, opts, segments, i, result, n). length segments - i)") auto

declare mergeLoop.simps [simp del]

definition mergeShortSegments ::
  "idgen \<Rightarrow> nat \<Rightarrow> real SubtitleSegment list \<Rightarrow> SplitterOptions \<Rightarrow> real SubtitleSegment list \<times> nat" where
  "mergeShortSegments g n segments opts =
     (if length segments \<le> 1 then (segments, n)
      else mergeLoop g opts segments 0 [] n)"

subsection \<open>The word-stream segmenter\<close>

text \<open>
  The \<^verbatim>\<open>for\<close> loop of \<^verbatim>\<open>splitSubtitles\<close> over the words that remain: \<open>w\<close> is
  \<^verbatim>\<open>words[i]\<close> and the head of the rest is \<^verbatim>\<open>words[i + 1]\<close>. The loop state is
  \<open>currentWords\<close>, \<open>currentStartTime\<close>, \<open>segments\<close> and the count of ids.
\<close>

fun splitLoop ::
  "idgen \<Rightarrow> SplitterOptions \<Rightarrow> WordTimestamp list \<Rightarrow> WordTimestamp list \<Rightarrow> real
     \<Rightarrow> real SubtitleSegment list \<Rightarrow> nat
     \<Rightarrow> error + (WordTimestamp list \<times> real \<times> real SubtitleSegment list \<times> nat)" where
  "splitLoop g opts [] currentWords currentStartTime segments n =
     Inr (currentWords, currentStartTime, segments, n)"
| "splitLoop g opts (w # rest) currentWords currentStartTime segments n =
     (let nextWord = (case rest of [] \<Rightarrow> None | nw # others \<Rightarrow> Some nw);
          pushed = currentWords @ [w];
          currentText = join [32] (map word pushed);
          currentDuration = fl (w_endTime w - currentStartTime);
          currentCharCount = length (strip_ws currentText)
      in if checkShouldSplit currentDuration currentCharCount currentText w nextWord opts
         then (case createSegment g n pushed currentStartTime of
                 Inl e \<Rightarrow> Inl e
               | Inr (seg, n') \<Rightarrow>
                   splitLoop g opts rest []
                     (case nextWord of None \<Rightarrow> currentStartTime | Some nw \<Rightarrow> w_startTime nw)
                     (segments @ [seg]) n')
         else splitLoop g opts rest pushed currentStartTime segments n)"

text \<open>
  \<^verbatim>\<open>splitSubtitles\<close> up to, and without, its last line: the segments before the merge
  pass.
\<close>

definition draftSegments ::
  "idgen \<Rightarrow> nat \<Rightarrow> WordTimestamp list \<Rightarrow> SplitterOptions \<Rightarrow> error + (real SubtitleSegment list \<times> nat)" where
  "draftSegments g n ws opts =
     (case ws of
        [] \<Rightarrow> Inr ([], n)
      | w0 # others \<Rightarrow>
          (case splitLoop g opts ws [] (w_startTime w0) [] n of
             Inl e \<Rightarrow> Inl e
           | Inr (currentWords, currentStartTime, segments, n1) \<Rightarrow>
               if length currentWords > 0
               then (case createSegment g n1 currentWords currentStartTime of
                       Inl e \<Rightarrow> Inl e
                     | Inr (seg, n2) \<Rightarrow> Inr (segments @ [seg], n2))
               else Inr (segments, n1)))"

definition splitSubtitles ::
  "idgen \<Rightarrow> nat \<Rightarrow> STTResult \<Rightarrow> PartialOptions \<Rightarrow> error + (real SubtitleSegment list \<times> nat)" where
  "splitSubtitles g n sttResult options =
     (let opts = merge_options options; ws = stt_words sttResult in
      if length ws = 0 then Inr ([], n)
      else (case draftSegments g n ws opts of
              Inl e \<Rightarrow> Inl e
            | Inr (segments, n1) \<Rightarrow> Inr (mergeShortSegments g n1 segments opts)))"


subsection \<open>The merge pass, by recursion on the list\<close>

text \<open>
  One greedy left-to-right pass, as \<^verbatim>\<open>mergeShortSegments\<close> makes it: a short segment that
  fits with its successor is replaced, with it, by \<open>merged_segment\<close>, and the pass goes
  on after the pair; any other segment is kept and the pass goes on with its successor.
\<close>

fun merge_pass ::
  "idgen \<Rightarrow> SplitterOptions \<Rightarrow> nat \<Rightarrow> real SubtitleSegment list \<Rightarrow> real SubtitleSegment list \<times> nat" where
  "merge_pass g opts n [] = ([], n)"
| "merge_pass g opts n [current] = ([current], n)"
| "merge_pass g opts n (current # nxt # rest) =
     (if duration current < minDuration opts
         \<and> fl (duration current + duration nxt) \<le> maxDuration opts
      then (case merge_pass g opts (Suc n) rest of
              (r, n') \<Rightarrow> (merged_segment g n current nxt # r, n'))
      else (case merge_pass g opts n (nxt # rest) of
              (r, n') \<Rightarrow> (current # r, n')))"

text \<open>
  The merger in the words of the specification (section 4.2), for comparison with the
  code: the text of a merged pair is \<open>current.text + " " + next.text\<close>.
\<close>

fun mergeShort_spec ::
  "idgen \<Rightarrow> SplitterOptions \<Rightarrow> nat \<Rightarrow> real SubtitleSegment list \<Rightarrow> real SubtitleSegment list \<times> nat" where
  "mergeShort_spec g opts n [] = ([], n)"
| "mergeShort_spec g opts n [current] = ([current], n)"
| "mergeShort_spec g opts n (current # nxt # rest) =
     (if duration current < minDuration opts
         \<and> fl (duration current + duration nxt) \<le> maxDuration opts
      then (case mergeShort_spec g opts (Suc n) rest of
              (r, n') \<Rightarrow>
                (\<lparr> seg_id = g n, seg_text = seg_text current @ [32] @ seg_text nxt,
                   startTime = startTime current, endTime = endTime nxt,
                   words = words current @ words nxt,
                   duration = fl (endTime nxt - startTime current) \<rparr> # r, n'))
      else (case mergeShort_spec g opts n (nxt # rest) of
              (r, n') \<Rightarrow> (current # r, n')))"

subsection \<open>Predicates of the properties\<close>

definition within_maxDuration :: "SplitterOptions \<Rightarrow> real SubtitleSegment \<Rightarrow> bool" where
  "within_maxDuration opts s = (duration s \<le> maxDuration opts)"

text \<open>
  A segment that does not end before it starts and whose \<open>duration\<close> is the one
  \<open>createSegment\<close> computes, \<open>endTime - startTime\<close>.
\<close>

definition well_timed :: "real SubtitleSegment \<Rightarrow> bool" where
  "well_timed s = (startTime s \<le> endTime s \<and> duration s = fl (endTime s - startTime s))"


text \<open>
  A buffer of words that started at \<open>start\<close> is below both hard ceilings (or empty).
\<close>

definition below_ceilings :: "SplitterOptions \<Rightarrow> WordTimestamp list \<Rightarrow> real \<Rightarrow> bool" where
  "below_ceilings opts ws start =
     (ws = [] \<or> (fl (w_endTime (last ws) - start) < maxDuration opts
               \<and> real (length (strip_ws (join [32] (map word ws)))) < maxCharacters opts))"

text \<open>
  A draft segment: built by \<open>createSegment\<close> from at least one word, and below both
  ceilings when its last word is left out.
\<close>

definition draft_ok :: "SplitterOptions \<Rightarrow> real SubtitleSegment \<Rightarrow> bool" where
  "draft_ok opts s =
     (words s \<noteq> []
      \<and> endTime s = w_endTime (last (words s))
      \<and> duration s = fl (endTime s - startTime s)
      \<and> seg_text s = trim (join [32] (map word (words s)))
      \<and> below_ceilings opts (butlast (words s)) (startTime s))"

subsection \<open>Timing re-normalisation\<close>

text \<open>
  The numbers of \<^verbatim>\<open>recalculateTimings\<close>, which divides: a finite number, or one of the
  three values a division by zero brings in. A finite result is rounded by \<open>fl\<close>; the
  sign of a zero is not kept. A character count is a whole number below \<open>2\<^sup>5\<^sup>3\<close>, which
  binary64 holds exactly.
\<close>

datatype jsnum = Fin real | PosInfinity | NegInfinity | NaN

text \<open>\<^verbatim>\<open>a / b\<close> for two character counts.\<close>

definition js_div_count :: "nat \<Rightarrow> nat \<Rightarrow> jsnum" where
  "js_div_count a b =
     (if b \<noteq> 0 then Fin (fl (real a / real b)) else if a = 0 then NaN else PosInfinity)"

fun js_mul :: "jsnum \<Rightarrow> jsnum \<Rightarrow> jsnum" where
  "js_mul NaN y = NaN"
| "js_mul x NaN = NaN"
| "js_mul (Fin a) (Fin b) = Fin (fl (a * b))"
| "js_mul (Fin a) PosInfinity = (if a = 0 then NaN else if 0 < a then PosInfinity else NegInfinity)"
| "js_mul (Fin a) NegInfinity = (if a = 0 then NaN else if 0 < a then NegInfinity else PosInfinity)"
| "js_mul PosInfinity (Fin b) = (if b = 0 then NaN else if 0 < b then PosInfinity else NegInfinity)"
| "js_mul NegInfinity (Fin b) = (if b = 0 then NaN else if 0 < b then NegInfinity else PosInfinity)"
| "js_mul PosInfinity PosInfinity = PosInfinity"
| "js_mul PosInfinity NegInfinity = NegInfinity"
| "js_mul NegInfinity PosInfinity = NegInfinity"
| "js_mul NegInfinity NegInfinity = PosInfinity"

fun js_add :: "jsnum \<Rightarrow> jsnum \<Rightarrow> jsnum" where
  "js_add NaN y = NaN"
| "js_add x NaN = NaN"
| "js_add (Fin a) (Fin b) = Fin (fl (a + b))"
| "js_add (Fin a) PosInfinity = PosInfinity"
| "js_add (Fin a) NegInfinity = NegInfinity"
| "js_add PosInfinity (Fin b) = PosInfinity"
| "js_add NegInfinity (Fin b) = NegInfinity"
| "js_add PosInfinity PosInfinity = PosInfinity"
| "js_add NegInfinity NegInfinity = NegInfinity"
| "js_add PosInfinity NegInfinity = NaN"
| "js_add NegInfinity PosInfinity = NaN"

definition is_finite :: "jsnum \<Rightarrow> bool" where
  "is_finite x = (case x of Fin r \<Rightarrow> True | PosInfinity \<Rightarrow> False | NegInfinity \<Rightarrow> False | NaN \<Rightarrow> False)"

text \<open>\<^verbatim>\<open>seg.text.replace(/\s/g, '').length\<close>\<close>

definition segmentChars :: "'n SubtitleSegment \<Rightarrow> nat" where
  "segmentChars segment = length (strip_ws (seg_text segment))"

text \<open>
  The \<^verbatim>\<open>segments.map(...)\<close> of \<^verbatim>\<open>recalculateTimings\<close>, with the variable \<open>currentTime\<close>
  its callback updates.
\<close>

fun recalc_map :: "nat \<Rightarrow> real \<Rightarrow> jsnum \<Rightarrow> real SubtitleSegment list \<Rightarrow> jsnum SubtitleSegment list" where
  "recalc_map totalChars totalDuration currentTime [] = []"
| "recalc_map totalChars totalDuration currentTime (segment # rest) =
     (let segmentDuration =
            js_mul (js_div_count (segmentChars segment) totalChars) (Fin totalDuration);
          updated = \<lparr> seg_id = seg_id segment, seg_text = seg_text segment,
                      startTime = currentTime,
                      endTime = js_add currentTime segmentDuration,
                      words = words segment,
                      duration = segmentDuration \<rparr>
      in updated # recalc_map totalChars totalDuration (js_add currentTime segmentDuration) rest)"

definition recalculateTimings :: "real SubtitleSegment list \<Rightarrow> real \<Rightarrow> jsnum SubtitleSegment list" where
  "recalculateTimings segments totalDuration =
     (if length segments = 0 then []
      else
        (let totalChars = foldl (\<lambda>sum seg. sum + segmentChars seg) 0 segments
         in recalc_map totalChars totalDuration (Fin 0) segments))"

subsection \<open>Example inputs\<close>

definition no_ids :: idgen where
  "no_ids k = []"

definition mk_word :: "jsstring \<Rightarrow> real \<Rightarrow> real \<Rightarrow> WordTimestamp" where
  "mk_word t a b = \<lparr> word = t, w_startTime = a, w_endTime = b, confidence = None \<rparr>"

definition mk_segment :: "jsstring \<Rightarrow> real \<Rightarrow> real \<Rightarrow> real SubtitleSegment" where
  "mk_segment t a b =
     \<lparr> seg_id = [], seg_text = t, startTime = a, endTime = b, words = [],
       duration = fl (b - a) \<rparr>"

text \<open>The segment \<open>createSegment\<close> builds from \<open>ws\<close>, with the id \<open>no_ids\<close> gives.\<close>

definition mk_draft :: "WordTimestamp list \<Rightarrow> real \<Rightarrow> real SubtitleSegment" where
  "mk_draft ws start =
     \<lparr> seg_id = [], seg_text = trim (join [32] (map word ws)), startTime = start,
       endTime = w_endTime (last ws), words = ws,
       duration = fl (w_endTime (last ws) - start) \<rparr>"

definition mk_stt :: "WordTimestamp list \<Rightarrow> STTResult" where
  "mk_stt ws = \<lparr> stt_fullText = join [32] (map word ws), stt_words = ws,
                 stt_duration = (if ws = [] then 0 else w_endTime (last ws)),
                 stt_language = None \<rparr>"


text \<open>
  Two segments that follow one another, with the binary64 numbers nearest to 0.9, 1.7
  and 4.4 as their times, and the durations \<open>createSegment\<close> computes for them.
\<close>

definition nine_tenths :: real where
  "nine_tenths = 8106479329266893 / 9007199254740992"

definition seventeen_tenths :: real where
  "seventeen_tenths = 7656119366529843 / 4503599627370496"

definition forty_four_tenths :: real where
  "forty_four_tenths = 2476979795053773 / 562949953421312"

definition rounding_pair :: "real SubtitleSegment list" where
  "rounding_pair =
     [\<lparr> seg_id = [], seg_text = [97], startTime = nine_tenths, endTime = seventeen_tenths,
         words = [], duration = 7205759403792793 / 9007199254740992 \<rparr>,
      \<lparr> seg_id = [], seg_text = [98], startTime = seventeen_tenths,
         endTime = forty_four_tenths, words = [],
         duration = 3039929748475085 / 1125899906842624 \<rparr>]"

section \<open>Properties\<close>

subsection \<open>Rounding\<close>

lemma pow2_powr: "pow2 k = 2 powr (of_int k)"
  by (simp add: pow2_def powr_real_of_int field_simps)

lemma pow2_pos [simp]: "0 < pow2 k"
  by (simp add: pow2_powr)

lemma pow2_nz [simp]: "pow2 k \<noteq> 0"
  using pow2_pos[of k] by linarith

lemma pow2_abs [simp]: "\<bar>pow2 k\<bar> = pow2 k"
  using pow2_pos[of k] by linarith

lemma pow2_add: "pow2 (a + b) = pow2 a * pow2 b"
  by (simp add: pow2_powr powr_add)

lemma pow2_0 [simp]: "pow2 0 = 1"
  by (simp add: pow2_def)

lemma pow2_inverse: "pow2 (- k) * pow2 k = 1"
  using pow2_add[of "- k" k] by simp

lemma pow2_less_iff: "pow2 a < pow2 b \<longleftrightarrow> a < b"
  by (simp add: pow2_powr)

lemma pow2_nat: "pow2 (int n) = 2 ^ n"
  by (simp add: pow2_def)

lemma rhe_close: "\<bar>of_int (rhe y) - y\<bar> \<le> 1 / 2"
proof -
  have "of_int \<lfloor>y\<rfloor> \<le> y" "y < of_int \<lfloor>y\<rfloor> + 1" by linarith+
  then show ?thesis by (auto simp: rhe_def Let_def)
qed

lemma rhe_of_int [simp]: "rhe (of_int m) = m"
  by (simp add: rhe_def)

lemma exponent_bounds:
  assumes "x \<noteq> 0"
  shows "pow2 \<lfloor>log 2 \<bar>x\<bar>\<rfloor> \<le> \<bar>x\<bar>" and "\<bar>x\<bar> < pow2 (\<lfloor>log 2 \<bar>x\<bar>\<rfloor> + 1)"
proof -
  have "0 < \<bar>x\<bar>" using assms by simp
  from floor_log_eq_powr_iff[OF this, of 2 "\<lfloor>log 2 \<bar>x\<bar>\<rfloor>"]
  have "2 powr (of_int \<lfloor>log 2 \<bar>x\<bar>\<rfloor>) \<le> \<bar>x\<bar>
        \<and> \<bar>x\<bar> < 2 powr (of_int (\<lfloor>log 2 \<bar>x\<bar>\<rfloor> + 1))"
    by simp
  then show "pow2 \<lfloor>log 2 \<bar>x\<bar>\<rfloor> \<le> \<bar>x\<bar>" and "\<bar>x\<bar> < pow2 (\<lfloor>log 2 \<bar>x\<bar>\<rfloor> + 1)"
    by (simp_all add: pow2_powr)
qed

lemma exponent_unique:
  assumes "pow2 e \<le> \<bar>x\<bar>" and "\<bar>x\<bar> < pow2 (e + 1)"
  shows "\<lfloor>log 2 \<bar>x\<bar>\<rfloor> = e"
proof -
  have "0 < \<bar>x\<bar>" using assms(1) pow2_pos[of e] by linarith
  from floor_log_eq_powr_iff[OF this, of 2 e] assms show ?thesis
    by (simp add: pow2_powr)
qed

text \<open>How \<open>fl\<close> is computed, once the exponent of \<open>x\<close> is known.\<close>

lemma fl_eval:
  assumes "pow2 e \<le> \<bar>x\<bar>" and "\<bar>x\<bar> < pow2 (e + 1)"
  shows "fl x = of_int (rhe (x * pow2 (52 - e))) * pow2 (e - 52)"
proof -
  have "x \<noteq> 0"
  proof
    assume "x = 0"
    with assms(1) have "pow2 e \<le> 0" by simp
    with pow2_pos[of e] show False by linarith
  qed
  then show ?thesis using exponent_unique[OF assms] by (simp add: fl_def Let_def)
qed

text \<open>One rounding changes a number by at most the unit roundoff, relatively.\<close>

lemma fl_error: "\<bar>fl x - x\<bar> \<le> unit_roundoff * \<bar>x\<bar>"
proof (cases "x = 0")
  case True
  then show ?thesis by (simp add: fl_def)
next
  case False
  define e where "e = \<lfloor>log 2 \<bar>x\<bar>\<rfloor>"
  define p where "p = pow2 (e - 52)"
  define y where "y = x * pow2 (52 - e)"
  have p: "0 < p" by (simp add: p_def)
  have inv: "pow2 (52 - e) * p = 1"
    using pow2_inverse[of "e - 52"] by (simp add: p_def)
  have x: "x = y * p" using inv by (simp add: y_def mult.assoc)
  have f: "fl x = of_int (rhe y) * p"
    using False by (simp add: fl_def Let_def e_def p_def y_def)
  have "fl x - x = (of_int (rhe y) - y) * p" using f x by (simp add: algebra_simps)
  then have "\<bar>fl x - x\<bar> = \<bar>of_int (rhe y) - y\<bar> * p" using p by (simp add: abs_mult)
  also have "\<dots> \<le> 1 / 2 * p" using rhe_close[of y] p by (intro mult_right_mono) auto
  also have "1 / 2 * p = unit_roundoff * pow2 e"
  proof -
    have "pow2 e = pow2 (e - 52) * pow2 52" using pow2_add[of "e - 52" 52] by simp
    also have "pow2 52 = 2 ^ 52" using pow2_nat[of 52] by simp
    finally show ?thesis by (simp add: p_def unit_roundoff_def)
  qed
  also have "\<dots> \<le> unit_roundoff * \<bar>x\<bar>"
    using exponent_bounds(1)[OF False] by (simp add: e_def unit_roundoff_def)
  finally show ?thesis .
qed

lemma unit_roundoff_range: "0 < unit_roundoff" "unit_roundoff < 1"
  by (simp_all add: unit_roundoff_def)

lemma fl_lower: "0 \<le> x \<Longrightarrow> (1 - unit_roundoff) * x \<le> fl x"
  using fl_error[of x] by (simp add: abs_le_iff algebra_simps)



lemma fl_pos: "0 < x \<Longrightarrow> 0 < fl x"
proof -
  assume x: "0 < x"
  have "0 < (1 - unit_roundoff) * x" using x unit_roundoff_range by simp
  with fl_lower[of x] x show ?thesis by linarith
qed


text \<open>A number with at most 53 significant bits is not changed.\<close>

lemma fl_dyadic:
  assumes "\<bar>m\<bar> < 2 ^ 53"
  shows "fl (of_int m * pow2 k) = of_int m * pow2 k"
proof (cases "m = 0")
  case True
  then show ?thesis by (simp add: fl_def)
next
  case False
  define x where "x = of_int m * pow2 k"
  have nz: "x \<noteq> 0" using False by (simp add: x_def)
  define e where "e = \<lfloor>log 2 \<bar>x\<bar>\<rfloor>"
  have lo: "pow2 e \<le> \<bar>x\<bar>" using exponent_bounds(1)[OF nz] by (simp add: e_def)
  have "\<bar>x\<bar> = of_int \<bar>m\<bar> * pow2 k" by (simp add: x_def abs_mult)
  also have "\<dots> < 2 ^ 53 * pow2 k"
  proof -
    have "(of_int \<bar>m\<bar> :: real) < of_int (2 ^ 53)" using assms by (simp only: of_int_less_iff)
    then show ?thesis by simp
  qed
  also have "\<dots> = pow2 (53 + k)" using pow2_add[of 53 k] pow2_nat[of 53] by simp
  finally have "pow2 e < pow2 (53 + k)" using lo by linarith
  then have "e < 53 + k" by (simp add: pow2_less_iff)
  then have j: "0 \<le> 52 + k - e" by simp
  have "x * pow2 (52 - e) = of_int m * pow2 (52 + k - e)"
    using pow2_add[of k "52 - e"] by (simp add: x_def algebra_simps)
  also have "pow2 (52 + k - e) = of_int (2 ^ nat (52 + k - e))"
    using j by (simp add: pow2_def)
  finally have "x * pow2 (52 - e) = of_int (m * 2 ^ nat (52 + k - e))" by simp
  then have "rhe (x * pow2 (52 - e)) = m * 2 ^ nat (52 + k - e)" by (simp only: rhe_of_int)
  then have "fl x = of_int (m * 2 ^ nat (52 + k - e)) * pow2 (e - 52)"
    using nz by (simp add: fl_def Let_def e_def)
  also have "\<dots> = of_int m * (pow2 (52 + k - e) * pow2 (e - 52))"
    using j by (simp add: pow2_def)
  also have "pow2 (52 + k - e) * pow2 (e - 52) = pow2 k"
    using pow2_add[of "52 + k - e" "e - 52"] by simp
  finally show ?thesis by (simp add: x_def)
qed

lemma fl_of_int: "\<bar>m\<bar> < 2 ^ 53 \<Longrightarrow> fl (of_int m) = of_int m"
  using fl_dyadic[of m 0] by simp

lemma fl_0 [simp]: "fl 0 = 0"
  by (simp add: fl_def)

lemma fl_1 [simp]: "fl 1 = 1"
  using fl_of_int[of 1] by simp

lemma fl_numeral [simp]:
  "numeral w < (9007199254740992 :: int) \<Longrightarrow> fl (numeral w) = numeral w"
  using fl_of_int[of "numeral w"] by simp

lemma fl_numeral_half [simp]:
  "numeral w < (9007199254740992 :: int) \<Longrightarrow> fl (numeral w / 2) = numeral w / 2"
  using fl_dyadic[of "numeral w" "- 1"] by (simp add: pow2_def)

lemma fl_numeral_quarter [simp]:
  "numeral w < (9007199254740992 :: int) \<Longrightarrow> fl (numeral w / 4) = numeral w / 4"
  using fl_dyadic[of "numeral w" "- 2"] by (simp add: pow2_def)

lemma fl_half [simp]: "fl (1 / 2) = 1 / 2"
  using fl_dyadic[of 1 "- 1"] by (simp add: pow2_def)
subsection \<open>The merge loop is the merge pass\<close>

lemma mergeLoop_merge_pass:
  "i \<le> length segments \<Longrightarrow>
   mergeLoop g opts segments i result n =
     (case merge_pass g opts n (drop i segments) of (r, n') \<Rightarrow> (result @ r, n'))"
proof (induction g opts segments i result n rule: mergeLoop.induct)
  case (1 g opts segments i result n)
  show ?case
  proof (cases "i < length segments")
    case False
    with "1.prems" show ?thesis by (subst mergeLoop.simps) simp
  next
    case True
    note lt = True
    show ?thesis
    proof (cases "i + 1 < length segments")
      case False
      with lt have d: "drop i segments = [segments ! i]"
        by (metis Cons_nth_drop_Suc Suc_eq_plus1 drop_all not_less)
      from False lt have e: "mergeLoop g opts segments i result n
          = mergeLoop g opts segments (i + 1) (result @ [segments ! i]) n"
        by (subst mergeLoop.simps) (simp add: Let_def)
      have "mergeLoop g opts segments (i + 1) (result @ [segments ! i]) n
          = (result @ [segments ! i], n)"
        using False by (subst mergeLoop.simps) simp
      with e d show ?thesis by simp
    next
      case True
      then have d: "drop i segments = segments ! i # segments ! (i + 1) # drop (i + 2) segments"
        using lt by (metis Cons_nth_drop_Suc Suc_eq_plus1 add_2_eq_Suc')
      show ?thesis
      proof (cases "duration (segments ! i) < minDuration opts
                    \<and> fl (duration (segments ! i) + duration (segments ! (i + 1)))
                        \<le> maxDuration opts")
        case c: True
        let ?m = "merged_segment g n (segments ! i) (segments ! (i + 1))"
        have e: "mergeLoop g opts segments i result n
            = mergeLoop g opts segments (i + 2) (result @ [?m]) (Suc n)"
          using c True lt by (subst mergeLoop.simps) (simp add: Let_def)
        have "mergeLoop g opts segments (i + 2) (result @ [?m]) (Suc n)
            = (case merge_pass g opts (Suc n) (drop (i + 2) segments) of
                 (r, n') \<Rightarrow> ((result @ [?m]) @ r, n'))"
          using "1.IH"(1)[OF lt refl] c True by simp
        with e d c show ?thesis by (simp split: prod.splits)
      next
        case c: False
        have e: "mergeLoop g opts segments i result n
            = mergeLoop g opts segments (i + 1) (result @ [segments ! i]) n"
          using c True lt by (subst mergeLoop.simps) (auto simp add: Let_def)
        have "mergeLoop g opts segments (i + 1) (result @ [segments ! i]) n
            = (case merge_pass g opts n (drop (i + 1) segments) of
                 (r, n') \<Rightarrow> ((result @ [segments ! i]) @ r, n'))"
          using "1.IH"(2)[OF lt refl] c True by auto
        moreover have "drop (i + 1) segments = segments ! (i + 1) # drop (i + 2) segments"
          using True by (metis Cons_nth_drop_Suc Suc_eq_plus1 add_2_eq_Suc')
        ultimately show ?thesis using e d c by (auto split: prod.splits)
      qed
    qed
  qed
qed

lemma mergeShortSegments_merge_pass:
  "mergeShortSegments g n segments opts = merge_pass g opts n segments"
proof (cases segments)
  case Nil
  then show ?thesis by (simp add: mergeShortSegments_def)
next
  case (Cons a rest)
  show ?thesis
  proof (cases rest)
    case Nil
    with Cons show ?thesis by (simp add: mergeShortSegments_def)
  next
    case (Cons b rest')
    with \<open>segments = a # rest\<close> show ?thesis
      using mergeLoop_merge_pass[of 0 segments g opts "[]" n]
      by (simp add: mergeShortSegments_def split: prod.splits)
  qed
qed

lemma words_merged_segment [simp]:
  "words (merged_segment g n current nxt) = words current @ words nxt"
  by (simp add: merged_segment_def)

lemma startTime_merged_segment [simp]:
  "startTime (merged_segment g n current nxt) = startTime current"
  by (simp add: merged_segment_def)

lemma endTime_merged_segment [simp]:
  "endTime (merged_segment g n current nxt) = endTime nxt"
  by (simp add: merged_segment_def)

lemma duration_merged_segment [simp]:
  "duration (merged_segment g n current nxt) = fl (endTime nxt - startTime current)"
  by (simp add: merged_segment_def)

lemma merge_pass_words:
  "concat (map words (fst (merge_pass g opts n segments))) = concat (map words segments)"
  by (induction g opts n segments rule: merge_pass.induct) (auto split: prod.splits)

lemma merge_pass_length:
  "length (fst (merge_pass g opts n segments)) \<le> length segments"
  by (induction g opts n segments rule: merge_pass.induct) (auto split: prod.splits)

lemma merge_pass_nonempty:
  "segments \<noteq> [] \<Longrightarrow> fst (merge_pass g opts n segments) \<noteq> []"
  by (induction g opts n segments rule: merge_pass.induct) (auto split: prod.splits)

lemma merge_pass_first:
  "segments \<noteq> [] \<Longrightarrow>
   startTime (hd (fst (merge_pass g opts n segments))) = startTime (hd segments)"
  by (induction g opts n segments rule: merge_pass.induct) (auto split: prod.splits)

lemma merge_pass_last:
  "segments \<noteq> [] \<Longrightarrow>
   endTime (last (fst (merge_pass g opts n segments))) = endTime (last segments)"
proof (induction g opts n segments rule: merge_pass.induct)
  case (3 g opts n current nxt rest)
  show ?case
  proof (cases "duration current < minDuration opts
                \<and> fl (duration current + duration nxt) \<le> maxDuration opts")
    case True
    show ?thesis
    proof (cases rest)
      case Nil
      with True show ?thesis by simp
    next
      case (Cons a list)
      with True 3(1) merge_pass_nonempty[of rest g opts "Suc n"] show ?thesis
        by (auto split: prod.splits)
    qed
  next
    case False
    with 3(2) merge_pass_nonempty[of "nxt # rest" g opts n] show ?thesis
      by (auto split: prod.splits)
  qed
qed simp_all




subsection \<open>The segmenter loop\<close>

lemma createSegment_pushed:
  "createSegment g n (cur @ [w]) start =
     Inr (\<lparr> seg_id = g n, seg_text = trim (join [32] (map word (cur @ [w]))), startTime = start,
            endTime = w_endTime w, words = cur @ [w],
            duration = fl (w_endTime w - start) \<rparr>, Suc n)"
  by (simp add: createSegment_def Let_def)

lemma checkShouldSplit_last [simp]:
  "checkShouldSplit d c t w None opts"
  by (simp add: checkShouldSplit_def)

lemma checkShouldSplit_false:
  "\<not> checkShouldSplit d c t w nextWord opts \<Longrightarrow>
     nextWord \<noteq> None \<and> d < maxDuration opts \<and> real c < maxCharacters opts"
  by (auto simp: checkShouldSplit_def Let_def split: option.splits if_splits)

lemma splitLoop_covers:
  "\<exists>cur' st' segs' n'.
      splitLoop g opts ws cur st segs n = Inr (cur', st', segs', n')
    \<and> concat (map words segs') @ cur' = concat (map words segs) @ cur @ ws
    \<and> (ws \<noteq> [] \<longrightarrow> cur' = [])"
proof (induction ws arbitrary: cur st segs n)
  case Nil
  show ?case by simp
next
  case (Cons w rest)
  let ?nextWord = "case rest of [] \<Rightarrow> None | nw # others \<Rightarrow> Some nw"
  let ?pushed = "cur @ [w]"
  let ?split = "checkShouldSplit (fl (w_endTime w - st))
                  (length (strip_ws (join [32] (map word ?pushed))))
                  (join [32] (map word ?pushed)) w ?nextWord opts"
  show ?case
  proof (cases ?split)
    case True
    let ?st' = "case ?nextWord of None \<Rightarrow> st | Some nw \<Rightarrow> w_startTime nw"
    let ?seg = "\<lparr> seg_id = g n, seg_text = trim (join [32] (map word ?pushed)),
            startTime = st, endTime = w_endTime w, words = ?pushed,
            duration = fl (w_endTime w - st) \<rparr>"
    from Cons.IH[of "[]" ?st' "segs @ [?seg]" "Suc n"]
    obtain cur' st' segs' n' where
      r: "splitLoop g opts rest [] ?st' (segs @ [?seg]) (Suc n) = Inr (cur', st', segs', n')"
      and c: "concat (map words segs') @ cur' = concat (map words (segs @ [?seg])) @ [] @ rest"
      and e: "rest \<noteq> [] \<longrightarrow> cur' = []" by blast
    have step: "splitLoop g opts (w # rest) cur st segs n = Inr (cur', st', segs', n')"
      using True r by (simp add: Let_def createSegment_pushed)
    have "cur' = []"
    proof (cases rest)
      case Nil
      with r show ?thesis by simp
    next
      case (Cons a list)
      with e show ?thesis by simp
    qed
    with step c show ?thesis by simp
  next
    case False
    then have ne: "rest \<noteq> []"
      by (cases rest) auto
    from Cons.IH[of ?pushed st segs n]
    obtain cur' st' segs' n' where
      r: "splitLoop g opts rest ?pushed st segs n = Inr (cur', st', segs', n')"
      and c: "concat (map words segs') @ cur' = concat (map words segs) @ ?pushed @ rest"
      and e: "rest \<noteq> [] \<longrightarrow> cur' = []" by blast
    have step: "splitLoop g opts (w # rest) cur st segs n = Inr (cur', st', segs', n')"
      using False r by (simp add: Let_def)
    with c e ne show ?thesis by simp
  qed
qed

lemma draftSegments_covers:
  "\<exists>segs n'. draftSegments g n ws opts = Inr (segs, n') \<and> concat (map words segs) = ws"
proof (cases ws)
  case Nil
  then show ?thesis by (simp add: draftSegments_def)
next
  case (Cons w0 others)
  from splitLoop_covers[of g opts ws "[]" "w_startTime w0" "[]" n] Cons
  obtain st' segs' n' where
    r: "splitLoop g opts ws [] (w_startTime w0) [] n = Inr ([], st', segs', n')"
    and c: "concat (map words segs') = ws" by auto
  then show ?thesis using Cons by (simp add: draftSegments_def)
qed

lemma splitLoop_draft_ok:
  "list_all (draft_ok opts) segs \<Longrightarrow> below_ceilings opts cur st \<Longrightarrow>
   splitLoop g opts ws cur st segs n = Inr (cur', st', segs', n') \<Longrightarrow>
   list_all (draft_ok opts) segs'"
proof (induction ws arbitrary: cur st segs n)
  case Nil
  then show ?case by simp
next
  case (Cons w rest)
  let ?nextWord = "case rest of [] \<Rightarrow> None | nw # others \<Rightarrow> Some nw"
  let ?pushed = "cur @ [w]"
  let ?split = "checkShouldSplit (fl (w_endTime w - st))
                  (length (strip_ws (join [32] (map word ?pushed))))
                  (join [32] (map word ?pushed)) w ?nextWord opts"
  show ?case
  proof (cases ?split)
    case True
    let ?st' = "case ?nextWord of None \<Rightarrow> st | Some nw \<Rightarrow> w_startTime nw"
    let ?seg = "\<lparr> seg_id = g n, seg_text = trim (join [32] (map word ?pushed)),
            startTime = st, endTime = w_endTime w, words = ?pushed,
            duration = fl (w_endTime w - st) \<rparr>"
    have r: "splitLoop g opts rest [] ?st' (segs @ [?seg]) (Suc n) = Inr (cur', st', segs', n')"
      using True Cons.prems(3) by (simp add: Let_def createSegment_pushed)
    have "draft_ok opts ?seg"
      using Cons.prems(2) by (simp add: draft_ok_def)
    with Cons.prems(1) have "list_all (draft_ok opts) (segs @ [?seg])" by simp
    moreover have "below_ceilings opts [] ?st'" by (simp add: below_ceilings_def)
    ultimately show ?thesis using Cons.IH r by blast
  next
    case False
    have r: "splitLoop g opts rest ?pushed st segs n = Inr (cur', st', segs', n')"
      using False Cons.prems(3) by (simp add: Let_def)
    from checkShouldSplit_false[OF False]
    have "below_ceilings opts ?pushed st" by (simp add: below_ceilings_def)
    with Cons.IH Cons.prems(1) r show ?thesis by blast
  qed
qed

lemma draftSegments_draft_ok:
  "draftSegments g n ws opts = Inr (segs, n') \<Longrightarrow> list_all (draft_ok opts) segs"
proof (cases ws)
  case Nil
  assume "draftSegments g n ws opts = Inr (segs, n')"
  with Nil show ?thesis by (simp add: draftSegments_def)
next
  case (Cons w0 others)
  assume d: "draftSegments g n ws opts = Inr (segs, n')"
  from splitLoop_covers[of g opts ws "[]" "w_startTime w0" "[]" n] Cons
  obtain st1 segs1 n1 where
    r: "splitLoop g opts ws [] (w_startTime w0) [] n = Inr ([], st1, segs1, n1)" by auto
  with d Cons have "segs = segs1" by (simp add: draftSegments_def)
  moreover have "list_all (draft_ok opts) segs1"
    using splitLoop_draft_ok[OF _ _ r] by (simp add: below_ceilings_def)
  ultimately show ?thesis by simp
qed

subsection \<open>Evaluation on concrete inputs\<close>

lemmas eval_defs =
  DEFAULT_OPTIONS_def checkShouldSplit_def createSegment_def regexp_def js_test_def
  naturalBreak_matcher_def sentenceDelimiters_matcher_def KOREAN_SENTENCE_ENDINGS_def
  korean_endings_def startsNewClause_def clause_starts_def natural_break_units_def
  sentence_delimiter_units_def conjunctions_def is_ws_def strip_ws_def trim_def Let_def
  mk_word_def mk_segment_def mk_draft_def mk_stt_def no_ids_def merged_segment_def
  merge_options_def no_options_def

subsection \<open>Claims about the merger\<close>

text \<open>
  C5, as amended. The merger is one greedy left-to-right pass (\<open>merge_pass\<close>): an input
  of at most one segment is returned unchanged; otherwise, at each index, a segment
  shorter than \<open>minDuration\<close> that has a successor with
  \<open>current.duration + next.duration \<le> maxDuration\<close> (the sum as binary64 computes
  it) is replaced, together with the
  successor, by one segment with the start of the first, the end of the second, both word
  lists concatenated and the text \<open>current.text + " " + next.text\<close> with the white space
  at its two ends trimmed, and the pass goes on two places further; any other segment is
  kept and the pass goes on one place further. A merged segment is never looked at again.
\<close>

theorem mergeShortSegments_single_greedy_pass:
  "mergeShortSegments g n segments opts = merge_pass g opts n segments
   \<and> (length segments \<le> 1 \<longrightarrow> mergeShortSegments g n segments opts = (segments, n))"
proof -
  have "length segments \<le> 1 \<longrightarrow> mergeShortSegments g n segments opts = (segments, n)"
    by (simp add: mergeShortSegments_def)
  then show ?thesis using mergeShortSegments_merge_pass by blast
qed

theorem mergeShortSegments_single_greedy_pass_witness:
  "mergeShortSegments no_ids 0 [mk_segment [97] 0 1, mk_segment [98] 1 2] DEFAULT_OPTIONS
     = ([\<lparr> seg_id = [], seg_text = [97, 32, 98], startTime = 0, endTime = 2,
            words = [], duration = 2 \<rparr>], 1)
   \<and> length [mk_segment [97] 0 1] \<le> 1
   \<and> mergeShortSegments no_ids 0 [mk_segment [97] 0 1] DEFAULT_OPTIONS = ([mk_segment [97] 0 1], 0)"
  using mergeShortSegments_single_greedy_pass
          [of no_ids 0 "[mk_segment [97] 0 1, mk_segment [98] 1 2]" DEFAULT_OPTIONS]
        mergeShortSegments_single_greedy_pass [of no_ids 0 "[mk_segment [97] 0 1]" DEFAULT_OPTIONS]
  by (simp add: eval_defs)

text \<open>
  C5 as it is stated fails: the code trims the joined text, so a pair whose first text
  is empty is merged into \<open>"a"\<close>, not into \<open>" a"\<close>.
\<close>

theorem mergeShortSegments_text_counterexample:
  "mergeShortSegments no_ids 0 [mk_segment [] 0 1, mk_segment [97] 1 2] DEFAULT_OPTIONS
     \<noteq> mergeShort_spec no_ids DEFAULT_OPTIONS 0 [mk_segment [] 0 1, mk_segment [97] 1 2]"
  by (simp add: mergeShortSegments_merge_pass eval_defs)




text \<open>
  Nor does the ceiling hold for contiguous inputs below it: the test rounds the sum of the
  two durations, and the merged duration is another rounded difference. The segments
  0.9 to 1.7 and 1.7 to 4.4 have the computed durations 0.7999999999999999 and
  2.7; their sum rounds to 3.5 and they merge into a segment of 3.5000000000000004.
\<close>

lemma rounding_pair_durations:
  "fl (seventeen_tenths - nine_tenths) = 7205759403792793 / 9007199254740992"
  "fl (forty_four_tenths - seventeen_tenths) = 3039929748475085 / 1125899906842624"
  "fl (7205759403792793 / 9007199254740992 + 3039929748475085 / 1125899906842624) = 7 / 2"
  "fl (forty_four_tenths - nine_tenths) = 7881299347898369 / 2251799813685248"
  by (subst fl_eval[where e = "-1"],
      simp_all add: pow2_def rhe_def nine_tenths_def seventeen_tenths_def
        forty_four_tenths_def)
     (subst fl_eval[where e = 1],
      simp_all add: pow2_def rhe_def nine_tenths_def seventeen_tenths_def
        forty_four_tenths_def)+

lemma rounding_pair_merged:
  "list_all well_timed rounding_pair
   \<and> list_all (within_maxDuration DEFAULT_OPTIONS) rounding_pair
   \<and> endTime (rounding_pair ! 0) = startTime (rounding_pair ! 1)
   \<and> map duration (fst (mergeShortSegments no_ids 0 rounding_pair DEFAULT_OPTIONS))
       = [7881299347898369 / 2251799813685248]
   \<and> maxDuration DEFAULT_OPTIONS < 7881299347898369 / 2251799813685248"
proof -
  have o: "nine_tenths \<le> seventeen_tenths" "seventeen_tenths \<le> forty_four_tenths"
    by (simp_all add: nine_tenths_def seventeen_tenths_def forty_four_tenths_def)
  have a: "list_all well_timed rounding_pair"
    using o by (simp add: rounding_pair_def well_timed_def rounding_pair_durations(1,2))
  have b: "list_all (within_maxDuration DEFAULT_OPTIONS) rounding_pair"
    by (simp add: rounding_pair_def within_maxDuration_def DEFAULT_OPTIONS_def)
  have c: "endTime (rounding_pair ! 0) = startTime (rounding_pair ! 1)"
    by (simp add: rounding_pair_def)
  have d: "map duration (fst (mergeShortSegments no_ids 0 rounding_pair DEFAULT_OPTIONS))
             = [7881299347898369 / 2251799813685248]"
    unfolding mergeShortSegments_merge_pass rounding_pair_def
    by (simp only: merge_pass.simps SubtitleSegment.simps rounding_pair_durations(3)
          Let_def) (simp add: merged_segment_def rounding_pair_durations(4) DEFAULT_OPTIONS_def
          split: prod.splits)
  have e: "maxDuration DEFAULT_OPTIONS < 7881299347898369 / 2251799813685248"
    by (simp add: DEFAULT_OPTIONS_def)
  from a b c d e show ?thesis by blast
qed

text \<open>
  The merging branch tests \<open>current.duration + next.duration\<close> but stores
  \<open>next.endTime - current.startTime\<close>, which also holds the silence between the two:
  two segments of one second, nine seconds apart, merge into one of eleven seconds.
\<close>

lemma merged_pair_across_silence:
  "list_all (within_maxDuration DEFAULT_OPTIONS) [mk_segment [97] 0 1, mk_segment [98] 10 11]
   \<and> map duration (fst (mergeShortSegments no_ids 0
                           [mk_segment [97] 0 1, mk_segment [98] 10 11] DEFAULT_OPTIONS)) = [11]"
  by (simp add: mergeShortSegments_merge_pass within_maxDuration_def eval_defs)

text \<open>
  C10. For a non-empty input the merger returns a non-empty sequence, no longer than the
  input, that starts when the input's first segment starts and ends when the input's last
  segment ends.
\<close>

theorem mergeShortSegments_keeps_time_span:
  "segments \<noteq> [] \<Longrightarrow>
     fst (mergeShortSegments g n segments opts) \<noteq> []
   \<and> length (fst (mergeShortSegments g n segments opts)) \<le> length segments
   \<and> startTime (hd (fst (mergeShortSegments g n segments opts))) = startTime (hd segments)
   \<and> endTime (last (fst (mergeShortSegments g n segments opts))) = endTime (last segments)"
  by (simp add: mergeShortSegments_merge_pass merge_pass_nonempty merge_pass_length
        merge_pass_first merge_pass_last)

theorem mergeShortSegments_keeps_time_span_witness:
  "[mk_segment [97] 0 1, mk_segment [98] 1 2, mk_segment [99] 2 6] \<noteq> []
   \<and> length (fst (mergeShortSegments no_ids 0
        [mk_segment [97] 0 1, mk_segment [98] 1 2, mk_segment [99] 2 6] DEFAULT_OPTIONS)) \<le> 3
   \<and> startTime (hd (fst (mergeShortSegments no_ids 0
        [mk_segment [97] 0 1, mk_segment [98] 1 2, mk_segment [99] 2 6] DEFAULT_OPTIONS))) = 0
   \<and> endTime (last (fst (mergeShortSegments no_ids 0
        [mk_segment [97] 0 1, mk_segment [98] 1 2, mk_segment [99] 2 6] DEFAULT_OPTIONS))) = 6"
  using mergeShortSegments_keeps_time_span
          [of "[mk_segment [97] 0 1, mk_segment [98] 1 2, mk_segment [99] 2 6]"
              no_ids 0 DEFAULT_OPTIONS]
  by (simp add: mk_segment_def)

subsection \<open>Claims about the word-stream segmenter\<close>

text \<open>
  C9. Whatever the options, \<open>splitSubtitles\<close> on a transcription without words returns
  the empty sequence, and no error.
\<close>

theorem splitSubtitles_empty:
  "stt_words sttResult = [] \<Longrightarrow> splitSubtitles g n sttResult options = Inr ([], n)"
  by (simp add: splitSubtitles_def)

theorem splitSubtitles_empty_witness:
  "stt_words (mk_stt []) = [] \<and> splitSubtitles no_ids 0 (mk_stt []) no_options = Inr ([], 0)"
  using splitSubtitles_empty [of "mk_stt []" no_ids 0 no_options]
  by (simp add: mk_stt_def)

text \<open>
  C1. For a non-empty word list \<open>splitSubtitles\<close> returns, and the word lists of the
  segments it returns (after the merge pass), put end to end, are the input word list:
  the same words in the same order, none dropped and none twice.
\<close>

theorem splitSubtitles_covers_words:
  "stt_words sttResult \<noteq> [] \<Longrightarrow>
   \<exists>segs n'. splitSubtitles g n sttResult options = Inr (segs, n')
            \<and> concat (map words segs) = stt_words sttResult"
proof -
  assume ne: "stt_words sttResult \<noteq> []"
  obtain segs n1 where
    d: "draftSegments g n (stt_words sttResult) (merge_options options) = Inr (segs, n1)"
    and c: "concat (map words segs) = stt_words sttResult"
    using draftSegments_covers by blast
  obtain out n2 where m: "merge_pass g (merge_options options) n1 segs = (out, n2)"
    by (cases "merge_pass g (merge_options options) n1 segs") auto
  have "concat (map words out) = concat (map words segs)"
    using merge_pass_words[of g "merge_options options" n1 segs] m by simp
  moreover have "splitSubtitles g n sttResult options = Inr (out, n2)"
    using ne d m by (simp add: splitSubtitles_def Let_def mergeShortSegments_merge_pass)
  ultimately show ?thesis using c by simp
qed

theorem splitSubtitles_covers_words_witness:
  "stt_words (mk_stt [mk_word [97] 0 2, mk_word [98] 2 4, mk_word [99] 4 5]) \<noteq> []
   \<and> (\<exists>segs n'. splitSubtitles no_ids 0
                   (mk_stt [mk_word [97] 0 2, mk_word [98] 2 4, mk_word [99] 4 5]) no_options
                 = Inr (segs, n')
               \<and> concat (map words segs)
                 = [mk_word [97] 0 2, mk_word [98] 2 4, mk_word [99] 4 5])"
  using splitSubtitles_covers_words
          [of "mk_stt [mk_word [97] 0 2, mk_word [98] 2 4, mk_word [99] 4 5]" no_ids 0 no_options]
  by (simp add: mk_stt_def)

text \<open>
  C3, as amended. The segmenter returns for every word list, every word is flushed into
  a segment (the word lists of the draft segments, put end to end, are the input), and
  every draft segment is built from at least one word and is below both ceilings when its
  last word is left out: the time from its start to the end of its last word but one is less
  than \<open>maxDuration\<close>, and the text of its words but the last has fewer than
  \<open>maxCharacters\<close> non-white-space characters. Only the last word of a segment can take
  it to or above a ceiling.
\<close>

theorem draftSegments_ceilings_before_last_word:
  "\<exists>segs n'. draftSegments g n ws opts = Inr (segs, n')
            \<and> concat (map words segs) = ws
            \<and> list_all (draft_ok opts) segs"
  using draftSegments_covers[of g n ws opts] draftSegments_draft_ok[of g n ws opts] by blast

theorem draftSegments_ceilings_before_last_word_witness:
  "\<exists>segs n'. draftSegments no_ids 0 [mk_word [97] 0 2, mk_word [98] 2 4, mk_word [99] 4 5]
                 DEFAULT_OPTIONS = Inr (segs, n')
            \<and> concat (map words segs) = [mk_word [97] 0 2, mk_word [98] 2 4, mk_word [99] 4 5]
            \<and> list_all (draft_ok DEFAULT_OPTIONS) segs"
  by (rule draftSegments_ceilings_before_last_word)

text \<open>
  C3 as it is stated fails: with words of two seconds each, every second word takes the
  segment to four seconds, above the default \<open>maxDuration\<close> of 3.5, and the segment is
  closed with that word in it. Two of the three draft segments are over the ceiling, and
  neither is the last one or a single word.
\<close>

theorem draftSegments_overlong_counterexample:
  "draftSegments no_ids 0
      [mk_word [97] 0 2, mk_word [98] 2 4, mk_word [99] 4 6, mk_word [100] 6 8, mk_word [101] 8 9]
      DEFAULT_OPTIONS
     = Inr ([mk_draft [mk_word [97] 0 2, mk_word [98] 2 4] 0,
             mk_draft [mk_word [99] 4 6, mk_word [100] 6 8] 4,
             mk_draft [mk_word [101] 8 9] 8], 3)
   \<and> \<not> within_maxDuration DEFAULT_OPTIONS (mk_draft [mk_word [97] 0 2, mk_word [98] 2 4] 0)
   \<and> \<not> within_maxDuration DEFAULT_OPTIONS (mk_draft [mk_word [99] 4 6, mk_word [100] 6 8] 4)"
  by (simp add: draftSegments_def within_maxDuration_def eval_defs)

subsection \<open>The split decision\<close>

lemma starts_with_iff: "starts_with p s \<longleftrightarrow> (\<exists>r. s = p @ r)"
  by (induction p s rule: starts_with.induct) auto

lemma korean_endings_last:
  "e \<in> set korean_endings \<Longrightarrow> e \<noteq> [] \<and> \<not> is_ws (last e)"
  by (auto simp: korean_endings_def is_ws_def)

lemma ending_then_white_space:
  assumes "e \<noteq> []" and "\<not> is_ws (last e)"
  shows "starts_with (rev e) (dropWhile is_ws (rev s))
           \<longleftrightarrow> (\<exists>p t. s = p @ e @ t \<and> list_all is_ws t)"
proof
  assume "starts_with (rev e) (dropWhile is_ws (rev s))"
  then obtain r where r: "dropWhile is_ws (rev s) = rev e @ r"
    by (auto simp: starts_with_iff)
  have "rev s = takeWhile is_ws (rev s) @ dropWhile is_ws (rev s)" by simp
  with r have "rev s = takeWhile is_ws (rev s) @ rev e @ r" by simp
  then have "rev (rev s) = rev (takeWhile is_ws (rev s) @ rev e @ r)" by simp
  then have "s = rev r @ e @ rev (takeWhile is_ws (rev s))" by simp
  moreover have "list_all is_ws (rev (takeWhile is_ws (rev s)))"
    by (simp add: list_all_iff) (meson set_takeWhileD)
  ultimately show "\<exists>p t. s = p @ e @ t \<and> list_all is_ws t" by blast
next
  assume "\<exists>p t. s = p @ e @ t \<and> list_all is_ws t"
  then obtain p t where s: "s = p @ e @ t" and t: "list_all is_ws t" by blast
  from assms obtain x xs where e: "rev e = x # xs" and x: "\<not> is_ws x"
    by (cases e rule: rev_cases) auto
  have "dropWhile is_ws (rev s) = dropWhile is_ws (rev t @ (rev e @ rev p))"
    using s by simp
  also have "\<dots> = dropWhile is_ws (rev e @ rev p)"
    using t by (intro dropWhile_append2) (simp add: list_all_iff)
  also have "\<dots> = rev e @ rev p"
    using e x by simp
  finally show "starts_with (rev e) (dropWhile is_ws (rev s))"
    by (simp add: starts_with_iff)
qed

lemma KOREAN_SENTENCE_ENDINGS_iff:
  "KOREAN_SENTENCE_ENDINGS s
     \<longleftrightarrow> (\<exists>e\<in>set korean_endings. \<exists>p t. s = p @ e @ t \<and> list_all is_ws t)"
  unfolding KOREAN_SENTENCE_ENDINGS_def list_ex_iff
  using ending_then_white_space korean_endings_last by (meson)

lemma startsNewClause_iff:
  "startsNewClause s \<longleftrightarrow> (\<exists>c\<in>set clause_starts. \<exists>r. s = c @ r)"
  by (simp add: startsNewClause_def list_ex_iff starts_with_iff)

lemma checkShouldSplit_iff:
  "checkShouldSplit elapsed chars buffered w nextWord opts \<longleftrightarrow>
     (nextWord = None
      \<or> elapsed \<ge> maxDuration opts
      \<or> real chars \<ge> maxCharacters opts
      \<or> ((re_test (sentenceDelimiters opts) (word w) \<or> KOREAN_SENTENCE_ENDINGS (word w))
          \<and> elapsed \<ge> minDuration opts)
      \<or> (re_test (naturalBreakPattern opts) buffered \<and> elapsed \<ge> targetDuration opts)
      \<or> (\<exists>nw. nextWord = Some nw \<and> fl (w_startTime nw - w_endTime w) \<ge> 0.5
               \<and> elapsed \<ge> minDuration opts)
      \<or> (\<exists>nw. nextWord = Some nw \<and> elapsed \<ge> targetDuration opts
               \<and> startsNewClause (word nw)))"
  by (cases nextWord) (auto simp: checkShouldSplit_def Let_def)

text \<open>
  C2. At a word \<open>w\<close> of the stream, with \<open>elapsed\<close> the time from the start of the
  current segment to the end of \<open>w\<close> (the difference as binary64 computes it, like the
  gap to the next word), \<open>chars\<close> the count of buffered non-white-space
  characters and \<open>buffered\<close> the buffered text, the split decision is true exactly when
  \<open>w\<close> is the last word, or \<open>elapsed \<ge> maxDuration\<close>, or \<open>chars \<ge> maxCharacters\<close>, or
  \<open>w\<close> matches \<open>sentenceDelimiters\<close> or ends with one of the fixed Korean endings (white
  space may follow it) and \<open>elapsed \<ge> minDuration\<close>, or the buffered text matches
  \<open>naturalBreakPattern\<close> and \<open>elapsed \<ge> targetDuration\<close>, or the next word starts at least
  half a second after the end of \<open>w\<close> and \<open>elapsed \<ge> minDuration\<close>, or
  \<open>elapsed \<ge> targetDuration\<close> and the next word begins with one of the fixed
  clause-starting words. In the loop, a false decision keeps the word in the buffer and
  goes on to the next word.
\<close>

theorem split_decision:
  "(checkShouldSplit elapsed chars buffered w nextWord opts \<longleftrightarrow>
     (nextWord = None
      \<or> elapsed \<ge> maxDuration opts
      \<or> real chars \<ge> maxCharacters opts
      \<or> ((re_test (sentenceDelimiters opts) (word w)
           \<or> (\<exists>e\<in>set korean_endings. \<exists>p t. word w = p @ e @ t \<and> list_all is_ws t))
          \<and> elapsed \<ge> minDuration opts)
      \<or> (re_test (naturalBreakPattern opts) buffered \<and> elapsed \<ge> targetDuration opts)
      \<or> (\<exists>nw. nextWord = Some nw \<and> fl (w_startTime nw - w_endTime w) \<ge> 0.5
               \<and> elapsed \<ge> minDuration opts)
      \<or> (\<exists>nw. nextWord = Some nw \<and> elapsed \<ge> targetDuration opts
               \<and> (\<exists>c\<in>set clause_starts. \<exists>r. word nw = c @ r))))
   \<and> (\<not> checkShouldSplit (fl (w_endTime w - currentStartTime))
            (length (strip_ws (join [32] (map word (currentWords @ [w])))))
            (join [32] (map word (currentWords @ [w]))) w
            (case rest of [] \<Rightarrow> None | nw # others \<Rightarrow> Some nw) opts
       \<longrightarrow> splitLoop g opts (w # rest) currentWords currentStartTime segments n
           = splitLoop g opts rest (currentWords @ [w]) currentStartTime segments n)"
proof -
  have "\<not> checkShouldSplit (fl (w_endTime w - currentStartTime))
            (length (strip_ws (join [32] (map word (currentWords @ [w])))))
            (join [32] (map word (currentWords @ [w]))) w
            (case rest of [] \<Rightarrow> None | nw # others \<Rightarrow> Some nw) opts
       \<longrightarrow> splitLoop g opts (w # rest) currentWords currentStartTime segments n
           = splitLoop g opts rest (currentWords @ [w]) currentStartTime segments n"
    by (simp add: Let_def)
  then show ?thesis
    unfolding checkShouldSplit_iff[of elapsed chars buffered w nextWord opts]
      KOREAN_SENTENCE_ENDINGS_iff startsNewClause_iff
    by blast
qed

theorem split_decision_witness:
  "checkShouldSplit 2 1 [45796] (mk_word [45796] 0 2) (Some (mk_word [97] 2 3)) DEFAULT_OPTIONS
   \<and> \<not> checkShouldSplit 1 1 [45796] (mk_word [45796] 0 1) (Some (mk_word [97] 1 2)) DEFAULT_OPTIONS
   \<and> splitLoop no_ids DEFAULT_OPTIONS [mk_word [45796] 0 1, mk_word [97] 1 2] [] 0 [] 0
       = splitLoop no_ids DEFAULT_OPTIONS [mk_word [97] 1 2] [mk_word [45796] 0 1] 0 [] 0"
proof -
  have k: "\<exists>e\<in>set korean_endings. \<exists>p t. word (mk_word [45796] 0 2) = p @ e @ t \<and> list_all is_ws t"
  proof (intro bexI exI conjI)
    show "word (mk_word [45796] 0 2) = [] @ [45796] @ []" by (simp add: mk_word_def)
    show "list_all is_ws []" by simp
    show "[45796] \<in> set korean_endings" by (simp add: korean_endings_def)
  qed
  have m: "(2::real) \<ge> minDuration DEFAULT_OPTIONS" by (simp add: DEFAULT_OPTIONS_def)
  have a: "checkShouldSplit 2 1 [45796] (mk_word [45796] 0 2) (Some (mk_word [97] 2 3)) DEFAULT_OPTIONS"
    using split_decision [of 2 1 "[45796]" "mk_word [45796] 0 2" "Some (mk_word [97] 2 3)"
                            DEFAULT_OPTIONS] k m
    by blast
  have b: "\<not> checkShouldSplit 1 1 [45796] (mk_word [45796] 0 1) (Some (mk_word [97] 1 2)) DEFAULT_OPTIONS"
    by (simp add: eval_defs)
  have c: "splitLoop no_ids DEFAULT_OPTIONS [mk_word [45796] 0 1, mk_word [97] 1 2] [] 0 [] 0
       = splitLoop no_ids DEFAULT_OPTIONS [mk_word [97] 1 2] [mk_word [45796] 0 1] 0 [] 0"
    using split_decision [where w = "mk_word [45796] 0 1" and opts = DEFAULT_OPTIONS
                            and currentStartTime = 0 and currentWords = "[]"
                            and rest = "[mk_word [97] 1 2]" and g = no_ids
                            and segments = "[]" and n = 0]
    by (simp add: eval_defs)
  from a b c show ?thesis by blast
qed

subsection \<open>Timing re-normalisation\<close>

lemma foldl_segmentChars:
  "foldl (\<lambda>sum seg. sum + segmentChars seg) a segments
     = a + sum_list (map segmentChars segments)"
  by (induction segments arbitrary: a) auto

text \<open>The share of \<open>totalDuration\<close> a segment gets, when the total count is positive.\<close>

lemma share_finite:
  "0 < totalChars \<Longrightarrow>
   js_mul (js_div_count c totalChars) (Fin totalDuration)
     = Fin (fl (fl (real c / real totalChars) * totalDuration))"
  by (simp add: js_div_count_def)

lemma recalc_map_length [simp]:
  "length (recalc_map totalChars totalDuration t segments) = length segments"
  by (induction segments arbitrary: t) (auto simp: Let_def)

lemma recalc_map_Nil_iff [simp]:
  "recalc_map totalChars totalDuration t segments = [] \<longleftrightarrow> segments = []"
  by (cases segments) (simp_all add: Let_def)

lemma recalc_map_first:
  "segments \<noteq> [] \<Longrightarrow> startTime (recalc_map totalChars totalDuration t segments ! 0) = t"
  by (cases segments) (simp_all add: Let_def)

lemma recalc_map_nth:
  "0 < totalChars \<Longrightarrow> i < length segments \<Longrightarrow>
     (\<exists>s. startTime (recalc_map totalChars totalDuration (Fin t) segments ! i) = Fin s)
   \<and> duration (recalc_map totalChars totalDuration (Fin t) segments ! i)
       = Fin (fl (fl (real (segmentChars (segments ! i)) / real totalChars) * totalDuration))
   \<and> endTime (recalc_map totalChars totalDuration (Fin t) segments ! i)
       = js_add (startTime (recalc_map totalChars totalDuration (Fin t) segments ! i))
                (duration (recalc_map totalChars totalDuration (Fin t) segments ! i))
   \<and> (Suc i < length segments \<longrightarrow>
        startTime (recalc_map totalChars totalDuration (Fin t) segments ! Suc i)
          = endTime (recalc_map totalChars totalDuration (Fin t) segments ! i))"
proof (induction segments arbitrary: t i)
  case Nil
  then show ?case by simp
next
  case (Cons segment rest)
  show ?case
  proof (cases i)
    case 0
    have "Suc 0 < length (segment # rest) \<longrightarrow> rest \<noteq> []" by auto
    with 0 Cons.prems show ?thesis
      by (simp add: Let_def share_finite recalc_map_first)
  next
    case (Suc k)
    with Cons.prems have k: "k < length rest" by simp
    from Cons.IH[OF Cons.prems(1) k,
        of "fl (t + fl (fl (real (segmentChars segment) / real totalChars) * totalDuration))"]
    show ?thesis using Suc Cons.prems(1)
      by (simp add: Let_def share_finite)
  qed
qed

lemma sum_list_shares:
  "sum_list (map (\<lambda>s. real (segmentChars s) / T * D) segments)
     = real (sum_list (map segmentChars segments)) / T * D"
  by (induction segments) (simp_all add: add_divide_distrib distrib_right)

lemma sum_list_abs_shares:
  "0 < T \<Longrightarrow>
   sum_list (map (\<lambda>s. \<bar>real (segmentChars s) / T * D\<bar>) segments)
     = real (sum_list (map segmentChars segments)) / T * \<bar>D\<bar>"
  by (induction segments) (simp_all add: add_divide_distrib distrib_right abs_mult)

lemma whole_share: "0 < (T::nat) \<Longrightarrow> real T / real T * D = D"
  by simp

text \<open>
  One turn of the accumulation \<open>currentTime += (chars / totalChars) * totalDuration\<close>,
  with its three roundings: when \<open>t\<close> is within the factor \<open>(1 + u)\<^sup>k - 1\<close> of the exact
  sum \<open>E\<close>, relative to the sum \<open>A\<close> of the absolute values, the new time is within
  \<open>(1 + u)\<^sup>k\<^sup>+\<^sup>1 - 1\<close>.
\<close>

lemma accumulate_step:
  assumes t: "\<bar>t - E\<bar> \<le> ((1 + unit_roundoff) ^ k - 1) * A"
    and k: "2 \<le> k" and E: "\<bar>E\<bar> \<le> A"
  shows "\<bar>fl (t + fl (fl q * D)) - (E + q * D)\<bar>
           \<le> ((1 + unit_roundoff) ^ Suc k - 1) * (A + \<bar>q * D\<bar>)"
proof -
  define u where "u = unit_roundoff"
  define R where "R = (1 + u) ^ k"
  define x where "x = q * D"
  define p where "p = fl q * D"
  define d where "d = fl p"
  define y where "y = t + d"
  have u: "0 < u" using unit_roundoff_range by (simp add: u_def)
  have R2: "(1 + u)\<^sup>2 \<le> R"
    unfolding R_def using k u by (intro power_increasing) auto
  have R1: "1 \<le> R" unfolding R_def using u by (intro one_le_power) auto
  have A: "0 \<le> A" using E by linarith
  have "\<bar>p - x\<bar> = \<bar>fl q - q\<bar> * \<bar>D\<bar>"
    by (simp add: p_def x_def abs_mult[symmetric] algebra_simps)
  also have "\<dots> \<le> (u * \<bar>q\<bar>) * \<bar>D\<bar>"
    using fl_error[of q] by (intro mult_right_mono) (auto simp: u_def)
  finally have h2: "\<bar>p - x\<bar> \<le> u * \<bar>x\<bar>" by (simp add: x_def abs_mult)
  then have h3: "\<bar>p\<bar> \<le> (1 + u) * \<bar>x\<bar>" by (simp add: algebra_simps)
  have "\<bar>d - p\<bar> \<le> u * \<bar>p\<bar>" using fl_error[of p] by (simp add: d_def u_def)
  also have "\<dots> \<le> u * ((1 + u) * \<bar>x\<bar>)" using h3 u by (intro mult_left_mono) auto
  finally have h4: "\<bar>d - p\<bar> \<le> u * ((1 + u) * \<bar>x\<bar>)" .
  have "\<bar>d - x\<bar> \<le> \<bar>d - p\<bar> + \<bar>p - x\<bar>" by simp
  also have "\<dots> \<le> u * ((1 + u) * \<bar>x\<bar>) + u * \<bar>x\<bar>" using h4 h2 by simp
  also have "\<dots> = ((1 + u)\<^sup>2 - 1) * \<bar>x\<bar>" by (simp add: power2_eq_square algebra_simps)
  also have "\<dots> \<le> (R - 1) * \<bar>x\<bar>" using R2 by (intro mult_right_mono) auto
  finally have h5: "\<bar>d - x\<bar> \<le> (R - 1) * \<bar>x\<bar>" .
  have "\<bar>y - (E + x)\<bar> \<le> \<bar>t - E\<bar> + \<bar>d - x\<bar>" by (simp add: y_def)
  also have "\<dots> \<le> (R - 1) * A + (R - 1) * \<bar>x\<bar>"
    using t h5 by (simp add: R_def u_def)
  finally have h6: "\<bar>y - (E + x)\<bar> \<le> (R - 1) * (A + \<bar>x\<bar>)" by (simp add: algebra_simps)
  have "\<bar>y\<bar> \<le> \<bar>E + x\<bar> + \<bar>y - (E + x)\<bar>" by simp
  also have "\<dots> \<le> (A + \<bar>x\<bar>) + (R - 1) * (A + \<bar>x\<bar>)" using E h6 by simp
  finally have h7: "\<bar>y\<bar> \<le> R * (A + \<bar>x\<bar>)" by (simp add: algebra_simps)
  have "\<bar>fl y - y\<bar> \<le> u * \<bar>y\<bar>" using fl_error[of y] by (simp add: u_def)
  also have "\<dots> \<le> u * (R * (A + \<bar>x\<bar>))" using h7 u by (intro mult_left_mono) auto
  finally have h8: "\<bar>fl y - y\<bar> \<le> u * (R * (A + \<bar>x\<bar>))" .
  have "\<bar>fl y - (E + x)\<bar> \<le> \<bar>fl y - y\<bar> + \<bar>y - (E + x)\<bar>" by simp
  also have "\<dots> \<le> u * (R * (A + \<bar>x\<bar>)) + (R - 1) * (A + \<bar>x\<bar>)" using h8 h6 by simp
  also have "\<dots> = ((1 + u) * R - 1) * (A + \<bar>x\<bar>)" by (simp add: algebra_simps)
  finally show ?thesis by (simp add: y_def d_def p_def x_def R_def u_def)
qed

lemma recalc_map_last_end:
  assumes "0 < totalChars" and "segments \<noteq> []"
    and "\<bar>t - E\<bar> \<le> ((1 + unit_roundoff) ^ k - 1) * A" and "2 \<le> k" and "\<bar>E\<bar> \<le> A"
  shows "\<exists>e. endTime (last (recalc_map totalChars totalDuration (Fin t) segments)) = Fin e
     \<and> \<bar>e - (E + sum_list (map (\<lambda>s. real (segmentChars s) / real totalChars * totalDuration)
                               segments))\<bar>
         \<le> ((1 + unit_roundoff) ^ (k + length segments) - 1)
             * (A + sum_list (map (\<lambda>s. \<bar>real (segmentChars s) / real totalChars
                                            * totalDuration\<bar>) segments))"
  using assms(2-)
proof (induction segments arbitrary: t E A k)
  case Nil
  then show ?case by simp
next
  case (Cons segment rest)
  let ?q = "real (segmentChars segment) / real totalChars"
  let ?t' = "fl (t + fl (fl ?q * totalDuration))"
  have step: "\<bar>?t' - (E + ?q * totalDuration)\<bar>
                \<le> ((1 + unit_roundoff) ^ Suc k - 1) * (A + \<bar>?q * totalDuration\<bar>)"
    using Cons.prems(2-) by (rule accumulate_step)
  show ?case
  proof (cases "rest = []")
    case True
    with step assms(1) show ?thesis by (simp add: Let_def share_finite)
  next
    case False
    have E': "\<bar>E + ?q * totalDuration\<bar> \<le> A + \<bar>?q * totalDuration\<bar>"
      using Cons.prems(4) by linarith
    have k': "2 \<le> Suc k" using Cons.prems(3) by simp
    from Cons.IH[OF False step k' E']
    obtain e where
      e: "endTime (last (recalc_map totalChars totalDuration (Fin ?t') rest)) = Fin e"
      and b: "\<bar>e - (E + ?q * totalDuration
                     + sum_list (map (\<lambda>s. real (segmentChars s) / real totalChars
                                            * totalDuration) rest))\<bar>
               \<le> ((1 + unit_roundoff) ^ (Suc k + length rest) - 1)
                   * (A + \<bar>?q * totalDuration\<bar>
                      + sum_list (map (\<lambda>s. \<bar>real (segmentChars s) / real totalChars
                                                * totalDuration\<bar>) rest))"
      by blast
    have "endTime (last (recalc_map totalChars totalDuration (Fin t) (segment # rest))) = Fin e"
      using False e assms(1) by (simp add: Let_def share_finite)
    moreover have "\<bar>e - (E + sum_list (map (\<lambda>s. real (segmentChars s) / real totalChars
                                                    * totalDuration) (segment # rest)))\<bar>
         \<le> ((1 + unit_roundoff) ^ (k + length (segment # rest)) - 1)
             * (A + sum_list (map (\<lambda>s. \<bar>real (segmentChars s) / real totalChars
                                            * totalDuration\<bar>) (segment # rest)))"
      using b by (simp add: add.assoc)
    ultimately show ?thesis by blast
  qed
qed

text \<open>
  C7, as amended. For a non-empty segment list whose total count of non-white-space
  characters is positive, \<open>recalculateTimings\<close> returns one segment for each input
  segment; the first starts at 0, each later one starts where the one before it ends, the
  duration of each is its share \<open>(chars / totalChars) * totalDuration\<close> as binary64
  computes it, each starts at a finite time and ends at its start plus its duration, as
  computed. The last ends at a finite time \<open>e\<close> near \<open>totalDuration\<close>, not always at it:
  \<open>|e - totalDuration| \<le> ((1 + u)\<^sup>n\<^sup>+\<^sup>2 - 1) * |totalDuration|\<close> for \<open>n\<close> segments, with
  \<open>u = 2\<^sup>-\<^sup>5\<^sup>3\<close>, in a run where no operation overflows or underflows.
\<close>

theorem recalculateTimings_contiguous_rounded:
  assumes "segments \<noteq> []"
    and "0 < sum_list (map segmentChars segments)"
  shows "length (recalculateTimings segments totalDuration) = length segments
    \<and> startTime (hd (recalculateTimings segments totalDuration)) = Fin 0
    \<and> (\<forall>i. Suc i < length segments \<longrightarrow>
          startTime (recalculateTimings segments totalDuration ! Suc i)
            = endTime (recalculateTimings segments totalDuration ! i))
    \<and> (\<forall>i < length segments.
          duration (recalculateTimings segments totalDuration ! i)
            = Fin (fl (fl (real (segmentChars (segments ! i))
                           / real (sum_list (map segmentChars segments))) * totalDuration))
        \<and> is_finite (startTime (recalculateTimings segments totalDuration ! i))
        \<and> endTime (recalculateTimings segments totalDuration ! i)
            = js_add (startTime (recalculateTimings segments totalDuration ! i))
                     (duration (recalculateTimings segments totalDuration ! i)))
    \<and> (\<exists>e. endTime (last (recalculateTimings segments totalDuration)) = Fin e
          \<and> \<bar>e - totalDuration\<bar>
              \<le> ((1 + unit_roundoff) ^ (length segments + 2) - 1) * \<bar>totalDuration\<bar>)"
proof -
  let ?T = "sum_list (map segmentChars segments)"
  let ?out = "recalculateTimings segments totalDuration"
  have out: "?out = recalc_map ?T totalDuration (Fin 0) segments"
    using assms(1) by (simp add: recalculateTimings_def foldl_segmentChars)
  note nth = recalc_map_nth[OF assms(2), of _ segments totalDuration 0, folded out]
  have len: "length ?out = length segments" by (simp add: out)
  have pos: "0 < length segments" using assms(1) by simp
  have first: "startTime (hd ?out) = Fin 0"
  proof -
    have "?out \<noteq> []" using len assms(1) by auto
    then have "hd ?out = ?out ! 0" by (simp add: hd_conv_nth)
    then show ?thesis unfolding out using assms(1) by (simp add: recalc_map_first)
  qed
  have chain: "\<forall>i. Suc i < length segments \<longrightarrow> startTime (?out ! Suc i) = endTime (?out ! i)"
  proof (intro allI impI)
    fix i assume s: "Suc i < length segments"
    then have i: "i < length segments" by simp
    from nth[OF i] s show "startTime (?out ! Suc i) = endTime (?out ! i)" by blast
  qed
  have each: "\<forall>i < length segments.
          duration (?out ! i)
            = Fin (fl (fl (real (segmentChars (segments ! i)) / real ?T) * totalDuration))
        \<and> is_finite (startTime (?out ! i))
        \<and> endTime (?out ! i) = js_add (startTime (?out ! i)) (duration (?out ! i))"
  proof (intro allI impI)
    fix i assume i: "i < length segments"
    from nth[OF i] obtain s where s: "startTime (?out ! i) = Fin s" by blast
    then have "is_finite (startTime (?out ! i))" by (simp add: is_finite_def)
    with nth[OF i] show "duration (?out ! i)
            = Fin (fl (fl (real (segmentChars (segments ! i)) / real ?T) * totalDuration))
        \<and> is_finite (startTime (?out ! i))
        \<and> endTime (?out ! i) = js_add (startTime (?out ! i)) (duration (?out ! i))"
      by blast
  qed
  have final: "\<exists>e. endTime (last ?out) = Fin e
          \<and> \<bar>e - totalDuration\<bar>
              \<le> ((1 + unit_roundoff) ^ (length segments + 2) - 1) * \<bar>totalDuration\<bar>"
  proof -
    have z: "\<bar>0 - (0::real)\<bar> \<le> ((1 + unit_roundoff) ^ 2 - 1) * 0" by simp
    have k: "(2::nat) \<le> 2" by simp
    have E: "\<bar>0::real\<bar> \<le> 0" by simp
    from recalc_map_last_end[OF assms(2) assms(1) z k E, of totalDuration]
    obtain e where e: "endTime (last ?out) = Fin e"
      and b: "\<bar>e - (0 + sum_list (map (\<lambda>s. real (segmentChars s) / real ?T * totalDuration)
                                     segments))\<bar>
         \<le> ((1 + unit_roundoff) ^ (2 + length segments) - 1)
             * (0 + sum_list (map (\<lambda>s. \<bar>real (segmentChars s) / real ?T * totalDuration\<bar>)
                                segments))"
      unfolding out by blast
    have s1: "sum_list (map (\<lambda>s. real (segmentChars s) / real ?T * totalDuration) segments)
                = totalDuration"
      unfolding sum_list_shares using assms(2) by (rule whole_share)
    have "0 < real ?T" using assms(2) by simp
    then have "sum_list (map (\<lambda>s. \<bar>real (segmentChars s) / real ?T * totalDuration\<bar>) segments)
                = real ?T / real ?T * \<bar>totalDuration\<bar>"
      by (rule sum_list_abs_shares)
    also have "\<dots> = \<bar>totalDuration\<bar>" using assms(2) by (rule whole_share)
    finally have s2:
      "sum_list (map (\<lambda>s. \<bar>real (segmentChars s) / real ?T * totalDuration\<bar>) segments)
         = \<bar>totalDuration\<bar>" .
    from b have "\<bar>e - totalDuration\<bar>
              \<le> ((1 + unit_roundoff) ^ (length segments + 2) - 1) * \<bar>totalDuration\<bar>"
      unfolding s1 s2 by (simp add: add.commute)
    with e show ?thesis by blast
  qed
  from len first chain each final show ?thesis by blast
qed

theorem recalculateTimings_contiguous_rounded_witness:
  "[mk_segment [97, 32] 0 1, mk_segment [98] 5 6] \<noteq> []
   \<and> 0 < sum_list (map segmentChars [mk_segment [97, 32] 0 1, mk_segment [98] 5 6])
   \<and> map startTime (recalculateTimings [mk_segment [97, 32] 0 1, mk_segment [98] 5 6] 10)
       = [Fin 0, Fin 5]
   \<and> (\<exists>e. endTime (last (recalculateTimings
                             [mk_segment [97, 32] 0 1, mk_segment [98] 5 6] 10)) = Fin e
          \<and> \<bar>e - 10\<bar> \<le> ((1 + unit_roundoff) ^ 4 - 1) * 10)"
proof -
  let ?segs = "[mk_segment [97, 32] 0 1, mk_segment [98] 5 6]"
  have a: "?segs \<noteq> []" by simp
  have b: "0 < sum_list (map segmentChars ?segs)"
    by (simp add: segmentChars_def mk_segment_def strip_ws_def is_ws_def)
  have c: "map startTime (recalculateTimings ?segs 10) = [Fin 0, Fin 5]"
    by (simp add: recalculateTimings_def segmentChars_def mk_segment_def strip_ws_def
          is_ws_def js_div_count_def Let_def)
  have l: "length ?segs + 2 = 4" by simp
  from recalculateTimings_contiguous_rounded [OF a b, of 10]
  obtain e where e: "endTime (last (recalculateTimings ?segs 10)) = Fin e"
    and d: "\<bar>e - 10\<bar> \<le> ((1 + unit_roundoff) ^ (length ?segs + 2) - 1) * \<bar>10\<bar>"
    by blast
  from d have "\<bar>e - 10\<bar> \<le> ((1 + unit_roundoff) ^ 4 - 1) * 10"
    unfolding l by simp
  with a b c e show ?thesis by blast
qed

text \<open>
  C7 as it is stated fails: the last segment need not end at \<open>totalDuration\<close>. For the
  texts \<open>"a"\<close> and \<open>"bc"\<close> and seven seconds, the two shares are computed as
  2.333333333333333 and 4.666666666666666, and the last segment ends at 6.999999999999999.
\<close>

lemma thirds_of_seven:
  "fl (1 / 3) = 6004799503160661 / 18014398509481984"
  "fl (2 / 3) = 6004799503160661 / 9007199254740992"
  "fl (42033596522124627 / 18014398509481984) = 2627099782632789 / 1125899906842624"
  "fl (42033596522124627 / 9007199254740992) = 2627099782632789 / 562949953421312"
  "fl (2627099782632789 / 1125899906842624) = 2627099782632789 / 1125899906842624"
  "fl (7881299347898367 / 1125899906842624) = 7881299347898367 / 1125899906842624"
proof -
  show "fl (1 / 3) = 6004799503160661 / 18014398509481984"
    by (subst fl_eval[where e = "-2"]) (simp_all add: pow2_def rhe_def)
  show "fl (2 / 3) = 6004799503160661 / 9007199254740992"
    by (subst fl_eval[where e = "-1"]) (simp_all add: pow2_def rhe_def)
  show "fl (42033596522124627 / 18014398509481984) = 2627099782632789 / 1125899906842624"
    by (subst fl_eval[where e = 1]) (simp_all add: pow2_def rhe_def)
  show "fl (42033596522124627 / 9007199254740992) = 2627099782632789 / 562949953421312"
    by (subst fl_eval[where e = 2]) (simp_all add: pow2_def rhe_def)
  show "fl (2627099782632789 / 1125899906842624) = 2627099782632789 / 1125899906842624"
    by (subst fl_eval[where e = 1]) (simp_all add: pow2_def rhe_def)
  show "fl (7881299347898367 / 1125899906842624) = 7881299347898367 / 1125899906842624"
    by (subst fl_eval[where e = 2]) (simp_all add: pow2_def rhe_def)
qed

theorem recalculateTimings_last_end_counterexample:
  "endTime (last (recalculateTimings [mk_segment [97] 0 1, mk_segment [98, 99] 1 2] 7))
     = Fin (7881299347898367 / 1125899906842624)
   \<and> endTime (last (recalculateTimings [mk_segment [97] 0 1, mk_segment [98, 99] 1 2] 7))
     \<noteq> Fin 7"
  by (simp add: recalculateTimings_def segmentChars_def mk_segment_def strip_ws_def
        is_ws_def js_div_count_def Let_def thirds_of_seven)

text \<open>
  C8: what the code does when no segment has a non-white-space character. Nothing guards
  the division: \<open>0 / 0\<close> is \<open>NaN\<close>, so the segment gets the end time and the duration
  \<open>NaN\<close>.
\<close>

theorem recalculateTimings_zero_chars:
  "recalculateTimings [mk_segment [] 0 2] 10
     = [\<lparr> seg_id = [], seg_text = [], startTime = Fin 0, endTime = NaN, words = [],
           duration = NaN \<rparr>]"
  by (simp add: recalculateTimings_def segmentChars_def mk_segment_def strip_ws_def
        js_div_count_def Let_def)


end
